theory Spec2Isabelle
  imports Main
begin

section \<open>Data model\<close>

text \<open>
  Positions, ranges and location links of the language server protocol, as the
  TypeScript code reads them. Lines and characters are zero-based counts.
\<close>

record Position =
  line :: nat
  character :: nat

record Range =
  start :: Position
  endp :: Position

record LocationLink =
  originSelectionRange :: "Range option"
  targetUri :: string
  targetRange :: Range
  targetSelectionRange :: Range

text \<open>A URI object of \<open>vscode-uri\<close>: its five components.\<close>

record URI =
  scheme :: string
  authority :: string
  path :: string
  query :: string
  fragment :: string

text \<open>
  \<open>URIError\<close> is what \<open>decodeURIComponent\<close> throws on a malformed escape;
  \<open>UriError\<close> is what \<open>URI.parse\<close> of \<open>vscode-uri\<close> throws.
\<close>

datatype error = URIError | UriError

record TextDocument =
  uri :: string
  languageId :: string
  version :: nat
  doc_text :: string

text \<open>
  A script snapshot is an object: \<open>snap_id\<close> stands for its identity (the key of the
  \<open>WeakMap\<close>), \<open>snap_text\<close> for \<open>snapshot.getText(0, snapshot.getLength())\<close>.
\<close>

record IScriptSnapshot =
  snap_id :: nat
  snap_text :: string

section \<open>Embedded document addressing\<close>

text \<open>
  Strings are byte strings, the UTF-8 form of the JavaScript string; a JavaScript string
  with a lone surrogate has no such form, \<open>encodeURIComponent\<close> throws on it, and it
  is not a value of the model.
  \<open>encodeURIComponent\<close> keeps the unreserved characters
  \<open>A-Z a-z 0-9 - _ . ! ~ * ' ( )\<close> and writes every other byte as \<open>%XX\<close> with
  upper-case hexadecimal digits.
\<close>

definition unreserved :: "char \<Rightarrow> bool" where
  "unreserved c =
     (let k = (of_char c :: nat) in
        (65 \<le> k \<and> k \<le> 90) \<or> (97 \<le> k \<and> k \<le> 122) \<or> (48 \<le> k \<and> k \<le> 57)
        \<or> k = 45 \<or> k = 95 \<or> k = 46 \<or> k = 33 \<or> k = 126 \<or> k = 42 \<or> k = 39 \<or> k = 40 \<or> k = 41)"

definition hexDigit :: "nat \<Rightarrow> char" where
  "hexDigit n = (if n < 10 then char_of (48 + n) else char_of (55 + n))"

definition hexValue :: "char \<Rightarrow> nat option" where
  "hexValue c =
     (let k = (of_char c :: nat) in
        if 48 \<le> k \<and> k \<le> 57 then Some (k - 48)
        else if 65 \<le> k \<and> k \<le> 70 then Some (k - 55)
        else if 97 \<le> k \<and> k \<le> 102 then Some (k - 87)
        else None)"

definition encodeChar :: "char \<Rightarrow> string" where
  "encodeChar c =
     (if unreserved c then [c]
      else [CHR ''%'', hexDigit ((of_char c :: nat) div 16), hexDigit ((of_char c :: nat) mod 16)])"

definition encodeURIComponent :: "string \<Rightarrow> string" where
  "encodeURIComponent s = concat (map encodeChar s)"

text \<open>
  \<open>decodeURIComponent\<close> copies every character but \<open>%\<close>. At a \<open>%\<close> it reads
  the escape \<open>%XX\<close>; an octet below 128 is the character itself; a greater octet must
  announce a sequence of two, three or four octets, the others following at once as
  escapes, and the sequence must be the well-formed UTF-8 of one code point. Anything
  else throws a \<open>URIError\<close> (the value \<open>None\<close>).

  \<open>octetCount\<close> is the length that a first octet announces (0 for none),
  \<open>validOctets\<close> the table of the well-formed sequences of more than one octet.
\<close>

definition octetCount :: "nat \<Rightarrow> nat" where
  "octetCount b =
     (if 192 \<le> b \<and> b < 224 then 2
      else if 224 \<le> b \<and> b < 240 then 3
      else if 240 \<le> b \<and> b < 248 then 4
      else 0)"

definition continuation :: "nat \<Rightarrow> bool" where
  "continuation b = (128 \<le> b \<and> b < 192)"

fun validOctets :: "nat list \<Rightarrow> bool" where
  "validOctets [b1, b2] = (194 \<le> b1 \<and> b1 \<le> 223 \<and> continuation b2)"
| "validOctets [b1, b2, b3] =
     (continuation b3
      \<and> (if b1 = 224 then 160 \<le> b2 \<and> b2 < 192
         else if b1 = 237 then 128 \<le> b2 \<and> b2 < 160
         else 225 \<le> b1 \<and> b1 \<le> 239 \<and> continuation b2))"
| "validOctets [b1, b2, b3, b4] =
     (continuation b3 \<and> continuation b4
      \<and> (if b1 = 240 then 144 \<le> b2 \<and> b2 < 192
         else if b1 = 244 then 128 \<le> b2 \<and> b2 < 144
         else 241 \<le> b1 \<and> b1 \<le> 243 \<and> continuation b2))"
| "validOctets bs = False"

text \<open>\<open>readEscapes\<close> reads a string made of escapes only, to its octets.\<close>

fun readEscapes :: "string \<Rightarrow> nat list option" where
  "readEscapes [] = Some []"
| "readEscapes (c # h1 # h2 # rest) =
     (if c = CHR ''%'' then
        (case (hexValue h1, hexValue h2) of
           (Some a, Some b) \<Rightarrow>
             (case readEscapes rest of None \<Rightarrow> None | Some bs \<Rightarrow> Some ((16 * a + b) # bs))
         | _ \<Rightarrow> None)
      else None)"
| "readEscapes cs = None"

fun decodeURIComponent :: "string \<Rightarrow> string option" where
  "decodeURIComponent [] = Some []"
| "decodeURIComponent (c # cs) =
     (if c = CHR ''%'' then
        (case cs of
           h1 # h2 # rest \<Rightarrow>
             (case (hexValue h1, hexValue h2) of
                (Some a, Some b) \<Rightarrow>
                  (let B = 16 * a + b in
                   if B < 128 then
                     (case decodeURIComponent rest of
                        None \<Rightarrow> None
                      | Some r \<Rightarrow> Some (char_of B # r))
                   else
                     (let n = octetCount B in
                      if n = 0 \<or> length rest < 3 * (n - 1) then None
                      else
                        (case readEscapes (take (3 * (n - 1)) rest) of
                           None \<Rightarrow> None
                         | Some octets \<Rightarrow>
                             if validOctets (B # octets) then
                               (case decodeURIComponent (drop (3 * (n - 1)) rest) of
                                  None \<Rightarrow> None
                                | Some r \<Rightarrow> Some (map char_of (B # octets) @ r))
                             else None)))
              | _ \<Rightarrow> None)
         | _ \<Rightarrow> None)
      else (case decodeURIComponent cs of None \<Rightarrow> None | Some r \<Rightarrow> Some (c # r)))"

text \<open>
  The byte strings that are the UTF-8 form of a JavaScript string: the strings of the
  model.
\<close>

fun wellFormedUTF8 :: "string \<Rightarrow> bool" where
  "wellFormedUTF8 [] = True"
| "wellFormedUTF8 (c # cs) =
     (let B = (of_char c :: nat) in
      if B < 128 then wellFormedUTF8 cs
      else
        (let n = octetCount B in
         n \<noteq> 0 \<and> n - 1 \<le> length cs
         \<and> validOctets (B # map of_char (take (n - 1) cs))
         \<and> wellFormedUTF8 (drop (n - 1) cs)))"

definition embeddedContentScheme :: string where
  "embeddedContentScheme = ''volar-embedded-content''"

text \<open>
  \<open>URI.parse\<close> and \<open>URI.toString\<close> belong to \<open>vscode-uri\<close>; they are parameters.
  \<open>URI.from\<close> builds the object from its components; its validation accepts the
  components given here (a legal scheme, a path that starts with \<open>/\<close>), so it is the
  record itself.
\<close>

definition decodeEmbeddedDocumentUri ::
  "(string \<Rightarrow> error + URI) \<Rightarrow> URI \<Rightarrow> error + (URI \<times> string) option" where
  "decodeEmbeddedDocumentUri URI_parse maybeEmbeddedContentUri =
     (if scheme maybeEmbeddedContentUri = embeddedContentScheme then
        (case decodeURIComponent (authority maybeEmbeddedContentUri) of
           None \<Rightarrow> Inl URIError
         | Some embeddedCodeId \<Rightarrow>
             (case decodeURIComponent (drop 1 (path maybeEmbeddedContentUri)) of
                None \<Rightarrow> Inl URIError
              | Some documentUri \<Rightarrow>
                  (case URI_parse documentUri of
                     Inl e \<Rightarrow> Inl e
                   | Inr u \<Rightarrow> Inr (Some (u, embeddedCodeId)))))
      else Inr None)"

definition encodeEmbeddedDocumentUri :: "(URI \<Rightarrow> string) \<Rightarrow> URI \<Rightarrow> string \<Rightarrow> URI" where
  "encodeEmbeddedDocumentUri URI_toString documentUri embeddedContentId =
     \<lparr> scheme = embeddedContentScheme,
       authority = encodeURIComponent embeddedContentId,
       path = ''/'' @ encodeURIComponent (URI_toString documentUri),
       query = [],
       fragment = [] \<rparr>"

section \<open>Document cache\<close>

text \<open>
  Modelled from the spec: the maps by URI (\<open>createUriMap\<close>), keyed by the identifier
  of the document, here the string of its URI. \<open>documentVersions\<close> maps the string
  of a URI to the next version; \<open>snapshot2Doc\<close> maps the identity of a snapshot to
  its documents by URI. Versions are natural numbers.
\<close>

record documents_state =
  documentVersions :: "string \<rightharpoonup> nat"
  snapshot2Doc :: "nat \<rightharpoonup> (string \<rightharpoonup> TextDocument)"

definition documents_get ::
  "(URI \<Rightarrow> string) \<Rightarrow> documents_state \<Rightarrow> URI \<Rightarrow> string \<Rightarrow> IScriptSnapshot
     \<Rightarrow> TextDocument \<times> documents_state" where
  "documents_get URI_toString st u langId snapshot =
     (let st1 = (if snapshot2Doc st (snap_id snapshot) = None
                 then st\<lparr>snapshot2Doc := (snapshot2Doc st)(snap_id snapshot \<mapsto> Map.empty)\<rparr>
                 else st);
          m = (case snapshot2Doc st1 (snap_id snapshot) of None \<Rightarrow> Map.empty | Some m' \<Rightarrow> m')
      in case m (URI_toString u) of
           Some doc \<Rightarrow> (doc, st1)
         | None \<Rightarrow>
             (let version = (case documentVersions st1 (URI_toString u) of None \<Rightarrow> 0 | Some v \<Rightarrow> v);
                  doc = \<lparr> uri = URI_toString u, languageId = langId, version = version,
                          doc_text = snap_text snapshot \<rparr>
              in (doc,
                  st1\<lparr> documentVersions := (documentVersions st1)(URI_toString u \<mapsto> version + 1),
                       snapshot2Doc := (snapshot2Doc st1)(snap_id snapshot \<mapsto> m(URI_toString u \<mapsto> doc)) \<rparr>)))"

text \<open>A sequence of \<open>documents.get\<close> calls, each on the cache the one before left.\<close>

fun getDocuments ::
  "(URI \<Rightarrow> string) \<Rightarrow> documents_state \<Rightarrow> (URI \<times> string \<times> IScriptSnapshot) list
     \<Rightarrow> TextDocument list" where
  "getDocuments URI_toString st [] = []"
| "getDocuments URI_toString st ((u, langId, snapshot) # calls) =
     (case documents_get URI_toString st u langId snapshot of
        (doc, st') \<Rightarrow> doc # getDocuments URI_toString st' calls)"

definition emptyDocuments :: documents_state where
  "emptyDocuments = \<lparr> documentVersions = Map.empty, snapshot2Doc = Map.empty \<rparr>"

section \<open>The language service context\<close>

text \<open>
  The parts of \<open>@volar/language-core\<close> and of \<open>documents.ts\<close> that the definition
  feature reads are parameters of the model, collected in the context: the source scripts
  with their embedded codes, the source map of an embedded code (\<open>sourceRanges\<close>: the
  source ranges of a generated range, in order, possibly none; \<open>sourceRange\<close>: the
  one range that \<open>getSourceRange\<close> gives) and its linked code map (the mirror
  positions of a position, within the same document).
\<close>

record VirtualCode =
  vc_id :: string
  vc_languageId :: string
  vc_snapshot :: IScriptSnapshot

record SourceScript =
  script_id :: URI
  script_languageId :: string
  script_snapshot :: IScriptSnapshot
  generated_embeddedCodes :: "(string \<rightharpoonup> VirtualCode) option"

record SourceMap =
  sourceRange :: "Range \<Rightarrow> Range option"
  sourceRanges :: "Range \<Rightarrow> Range list"

record SourceMapWithDocuments =
  sourceDocument :: TextDocument
  embeddedDocument :: TextDocument
  getSourceRange :: "Range \<Rightarrow> Range option"
  getSourceRanges :: "Range \<Rightarrow> Range list"

record LinkedCodeMapWithDocument =
  document :: TextDocument
  getLinkedCodePositions :: "Position \<Rightarrow> Position list"

record LanguageServiceContext =
  URI_parse :: "string \<Rightarrow> error + URI"
  URI_toString :: "URI \<Rightarrow> string"
  scripts_get :: "URI \<rightharpoonup> SourceScript"
  scripts_fromVirtualCode :: "VirtualCode \<Rightarrow> SourceScript"
  maps_get :: "VirtualCode \<Rightarrow> SourceMap"
  linkedCodeMaps_get :: "VirtualCode \<rightharpoonup> (Position \<Rightarrow> Position list)"
  documents :: documents_state

text \<open>
  \<open>getSourceMap\<close> and \<open>getLinkedCodeMap\<close> wrap a map with its documents. They read the
  document cache of the context; the cache entries they add and the memo tables of the
  wrappers are not threaded through the search, which reads the documents only.
\<close>

definition getSourceMap :: "LanguageServiceContext \<Rightarrow> VirtualCode \<Rightarrow> SourceMapWithDocuments" where
  "getSourceMap ctx virtualCode =
     (let m = maps_get ctx virtualCode;
          sourceScript = scripts_fromVirtualCode ctx virtualCode;
          embeddedUri = encodeEmbeddedDocumentUri (URI_toString ctx) (script_id sourceScript) (vc_id virtualCode)
      in case documents_get (URI_toString ctx) (documents ctx) (script_id sourceScript)
                (script_languageId sourceScript) (script_snapshot sourceScript) of
           (sourceDoc, st1) \<Rightarrow>
             (case documents_get (URI_toString ctx) st1 embeddedUri
                     (vc_languageId virtualCode) (vc_snapshot virtualCode) of
                (embeddedDoc, st2) \<Rightarrow>
                  \<lparr> sourceDocument = sourceDoc, embeddedDocument = embeddedDoc,
                    getSourceRange = sourceRange m, getSourceRanges = sourceRanges m \<rparr>))"

definition getLinkedCodeMap ::
  "LanguageServiceContext \<Rightarrow> VirtualCode \<Rightarrow> URI \<Rightarrow> LinkedCodeMapWithDocument option" where
  "getLinkedCodeMap ctx virtualCode documentUri =
     (case linkedCodeMaps_get ctx virtualCode of
        None \<Rightarrow> None
      | Some m \<Rightarrow>
          (let embeddedUri = encodeEmbeddedDocumentUri (URI_toString ctx) documentUri (vc_id virtualCode)
           in Some \<lparr> document = fst (documents_get (URI_toString ctx) (documents ctx) embeddedUri
                                        (vc_languageId virtualCode) (vc_snapshot virtualCode)),
                     getLinkedCodePositions = m \<rparr>))"

text \<open>
  The three lines that both the search and the projector run on a target URI: decode it,
  look the source script up, look the embedded code up.
\<close>

definition targetVirtualCode ::
  "LanguageServiceContext \<Rightarrow> string \<Rightarrow> error + (SourceScript \<times> VirtualCode) option" where
  "targetVirtualCode ctx target =
     (case URI_parse ctx target of
        Inl e \<Rightarrow> Inl e
      | Inr u \<Rightarrow>
          (case decodeEmbeddedDocumentUri (URI_parse ctx) u of
             Inl e \<Rightarrow> Inl e
           | Inr None \<Rightarrow> Inr None
           | Inr (Some (documentUri, embeddedCodeId)) \<Rightarrow>
               (case scripts_get ctx documentUri of
                  None \<Rightarrow> Inr None
                | Some sourceScript \<Rightarrow>
                    (case generated_embeddedCodes sourceScript of
                       None \<Rightarrow> Inr None
                     | Some embeddedCodes \<Rightarrow>
                         (case embeddedCodes embeddedCodeId of
                            None \<Rightarrow> Inr None
                          | Some virtualCode \<Rightarrow> Inr (Some (sourceScript, virtualCode)))))))"

definition linkedCodeMapOf ::
  "LanguageServiceContext \<Rightarrow> LocationLink \<Rightarrow> error + LinkedCodeMapWithDocument option" where
  "linkedCodeMapOf ctx d =
     (case targetVirtualCode ctx (targetUri d) of
        Inl e \<Rightarrow> Inl e
      | Inr None \<Rightarrow> Inr None
      | Inr (Some (sourceScript, virtualCode)) \<Rightarrow>
          Inr (getLinkedCodeMap ctx virtualCode (script_id sourceScript)))"

section \<open>The definition resolver\<close>

text \<open>
  Modelled from the spec: the visited set \<open>recursiveChecker\<close>
  (\<open>dedupe.createLocationSet\<close>), a set of locations, each a document URI with a range.
  The search only adds the ranges that start and end at one position.

  \<open>analyzerCalls\<close> is the list of the calls made to the analyzer so far. The
  cancellation token is read as a function of their number: \<open>token k\<close> is
  \<open>token.isCancellationRequested\<close> once \<open>k\<close> analyzer calls have returned.
\<close>

record search_state =
  recursiveChecker :: "(string \<times> Range) set"
  result :: "LocationLink list"
  analyzerCalls :: "(TextDocument \<times> Position) list"

definition pointRange :: "Position \<Rightarrow> Range" where
  "pointRange p = \<lparr> start = p, endp = p \<rparr>"

type_synonym analyzer = "TextDocument \<Rightarrow> Position \<Rightarrow> bool \<Rightarrow> LocationLink list option"

type_synonym search =
  "TextDocument \<Rightarrow> Position \<Rightarrow> LocationLink option \<Rightarrow> search_state
     \<Rightarrow> (error + search_state) option"

text \<open>
  The inner loop, over the mirror positions of one candidate. \<open>search\<close> is the recursive
  call; the value \<open>None\<close> is a search that has not returned.
\<close>

fun forLinkedPos ::
  "search \<Rightarrow> LinkedCodeMapWithDocument \<Rightarrow> LocationLink \<Rightarrow> Position list \<Rightarrow> bool
     \<Rightarrow> search_state \<Rightarrow> (error + bool \<times> search_state) option" where
  "forLinkedPos search linkedCodeMap origin [] foundMirrorPosition s =
     Some (Inr (foundMirrorPosition, s))"
| "forLinkedPos search linkedCodeMap origin (linkedPos # rest) foundMirrorPosition s =
     (if (uri (document linkedCodeMap), pointRange linkedPos) \<in> recursiveChecker s
      then forLinkedPos search linkedCodeMap origin rest foundMirrorPosition s
      else
        (case search (document linkedCodeMap) linkedPos (Some origin) s of
           None \<Rightarrow> None
         | Some (Inl e) \<Rightarrow> Some (Inl e)
         | Some (Inr s') \<Rightarrow> forLinkedPos search linkedCodeMap origin rest True s'))"

text \<open>The link a terminal candidate is pushed as.\<close>

definition emitted :: "LocationLink option \<Rightarrow> LocationLink \<Rightarrow> LocationLink" where
  "emitted originDefinition d =
     (case originDefinition of
        Some origin \<Rightarrow> d\<lparr> originSelectionRange := originSelectionRange origin \<rparr>
      | None \<Rightarrow> d)"

definition originOr :: "LocationLink option \<Rightarrow> LocationLink \<Rightarrow> LocationLink" where
  "originOr originDefinition d = (case originDefinition of Some origin \<Rightarrow> origin | None \<Rightarrow> d)"

definition markTarget :: "LocationLink \<Rightarrow> search_state \<Rightarrow> search_state" where
  "markTarget d s =
     s\<lparr> recursiveChecker :=
          insert (targetUri d, pointRange (start (targetRange d))) (recursiveChecker s) \<rparr>"

text \<open>The body of the outer loop, for one candidate \<open>d\<close> of the analyzer.\<close>

definition forDefinition ::
  "search \<Rightarrow> LanguageServiceContext \<Rightarrow> LocationLink option \<Rightarrow> LocationLink \<Rightarrow> search_state
     \<Rightarrow> (error + search_state) option" where
  "forDefinition search ctx originDefinition d s =
     (let s1 = markTarget d s in
      case linkedCodeMapOf ctx d of
        Inl e \<Rightarrow> Some (Inl e)
      | Inr linkedCodeMap \<Rightarrow>
          (case (case linkedCodeMap of
                   None \<Rightarrow> Some (Inr (False, s1))
                 | Some lm \<Rightarrow>
                     forLinkedPos search lm (originOr originDefinition d)
                       (getLinkedCodePositions lm (start (targetSelectionRange d))) False s1) of
             None \<Rightarrow> None
           | Some (Inl e) \<Rightarrow> Some (Inl e)
           | Some (Inr (foundMirrorPosition, s2)) \<Rightarrow>
               (if \<not> foundMirrorPosition
                then Some (Inr (s2\<lparr> result := result s2 @ [emitted originDefinition d] \<rparr>))
                else Some (Inr s2))))"

fun forDefinitions ::
  "search \<Rightarrow> LanguageServiceContext \<Rightarrow> LocationLink option \<Rightarrow> LocationLink list \<Rightarrow> search_state
     \<Rightarrow> (error + search_state) option" where
  "forDefinitions search ctx originDefinition [] s = Some (Inr s)"
| "forDefinitions search ctx originDefinition (d # definitions) s =
     (case forDefinition search ctx originDefinition d s of
        None \<Rightarrow> None
      | Some (Inl e) \<Rightarrow> Some (Inl e)
      | Some (Inr s') \<Rightarrow> forDefinitions search ctx originDefinition definitions s')"

text \<open>
  \<open>withLinkedCode\<close>, with the depth of the recursion bounded by the first argument:
  a search that would go deeper has the value \<open>None\<close>. \<open>api\<close> is
  \<open>plugin[1][apiName]\<close>, absent when the plugin does not provide the request kind; an
  analyzer that returns \<open>undefined\<close> or \<open>null\<close> gives no candidate. The analyzer
  is taken to return: a plugin that throws or never answers is not part of the model.
\<close>

primrec withLinkedCode ::
  "nat \<Rightarrow> LanguageServiceContext \<Rightarrow> analyzer option \<Rightarrow> (nat \<Rightarrow> bool) \<Rightarrow> search" where
  "withLinkedCode 0 ctx api token = (\<lambda>doc position originDefinition s. None)"
| "withLinkedCode (Suc n) ctx api token =
     (\<lambda>doc position originDefinition s.
        case api of
          None \<Rightarrow> Some (Inr s)
        | Some f \<Rightarrow>
            if (uri doc, pointRange position) \<in> recursiveChecker s then Some (Inr s)
            else
              (let s1 = s\<lparr> recursiveChecker :=
                             insert (uri doc, pointRange position) (recursiveChecker s) \<rparr>;
                   definitions =
                     (case f doc position (token (length (analyzerCalls s1))) of
                        None \<Rightarrow> []
                      | Some ds \<Rightarrow> ds);
                   s2 = s1\<lparr> analyzerCalls := analyzerCalls s1 @ [(doc, position)] \<rparr>
               in forDefinitions (withLinkedCode n ctx api token) ctx originDefinition definitions s2))"

text \<open>
  The callback that the feature worker runs for one plugin at one seed (a generated
  document with a position in it). It returns \<open>undefined\<close> (here \<open>None\<close>) when the
  token is cancelled already, the links found otherwise; the second component is the list
  of the analyzer calls it made.
\<close>

definition emptySearch :: search_state where
  "emptySearch = \<lparr> recursiveChecker = {}, result = [], analyzerCalls = [] \<rparr>"

definition worker ::
  "nat \<Rightarrow> LanguageServiceContext \<Rightarrow> analyzer option \<Rightarrow> (nat \<Rightarrow> bool) \<Rightarrow> TextDocument \<Rightarrow> Position
     \<Rightarrow> (error + LocationLink list option \<times> (TextDocument \<times> Position) list) option" where
  "worker n ctx api token doc position =
     (if token 0 then Some (Inr (None, []))
      else
        (case withLinkedCode n ctx api token doc position None emptySearch of
           None \<Rightarrow> None
         | Some (Inl e) \<Rightarrow> Some (Inl e)
         | Some (Inr s) \<Rightarrow> Some (Inr (Some (result s), analyzerCalls s))))"

section \<open>The result projector\<close>

datatype apiName = provideDefinition | provideTypeDefinition | provideImplementation

text \<open>The loop of \<open>toSourcePositionPreferSurroundedPosition\<close> over the source ranges.\<close>

fun preferSurrounded :: "Range option \<Rightarrow> Range list \<Rightarrow> Position \<Rightarrow> Range option" where
  "preferSurrounded res [] position = res"
| "preferSurrounded res (r # ranges) position =
     (let res' = (if res = None then Some r else res) in
      if (line (start r) < line position
            \<or> (line (start r) = line position \<and> character (start r) \<le> character position))
         \<and> (line (endp r) > line position
            \<or> (line (endp r) = line position \<and> character (endp r) \<ge> character position))
      then Some r
      else preferSurrounded res' ranges position)"

definition toSourcePositionPreferSurroundedPosition ::
  "SourceMapWithDocuments \<Rightarrow> Range \<Rightarrow> Position \<Rightarrow> Range option" where
  "toSourcePositionPreferSurroundedPosition map' mappedRange position =
     preferSurrounded None (getSourceRanges map' mappedRange) position"

text \<open>Lines 96 to 105 of the transform: the origin selection range of a link.\<close>

definition refineOrigin ::
  "SourceMapWithDocuments option \<Rightarrow> Position \<Rightarrow> LocationLink \<Rightarrow> LocationLink option" where
  "refineOrigin map' position link =
     (case (originSelectionRange link, map') of
        (Some origin, Some m) \<Rightarrow>
          (case toSourcePositionPreferSurroundedPosition m origin position of
             None \<Rightarrow> None
           | Some r \<Rightarrow> Some (link\<lparr> originSelectionRange := Some r \<rparr>))
      | _ \<Rightarrow> Some link)"

definition zeroRange :: Range where
  "zeroRange = \<lparr> start = \<lparr> line = 0, character = 0 \<rparr>, endp = \<lparr> line = 0, character = 0 \<rparr> \<rparr>"

text \<open>
  The transform of one link: \<open>None\<close> is a link left out of the answer. \<open>queryUri\<close> is
  the URI of the request, \<open>map'\<close> the source map of the seed, absent for a seed in the
  source document itself. The code writes the new fields into the link object; the model
  returns the updated link, the links of a list being taken as different objects.
\<close>

definition transformLink ::
  "LanguageServiceContext \<Rightarrow> apiName \<Rightarrow> URI \<Rightarrow> Position \<Rightarrow> SourceMapWithDocuments option
     \<Rightarrow> LocationLink \<Rightarrow> error + LocationLink option" where
  "transformLink ctx api_name queryUri position map' link0 =
     (case refineOrigin map' position link0 of
        None \<Rightarrow> Inr None
      | Some link \<Rightarrow>
          (case targetVirtualCode ctx (targetUri link) of
             Inl e \<Rightarrow> Inl e
           | Inr None \<Rightarrow> Inr (Some link)
           | Inr (Some (sourceScript, targetVirtualFile)) \<Rightarrow>
               (let targetSourceMap = getSourceMap ctx targetVirtualFile in
                case getSourceRange targetSourceMap (targetSelectionRange link) of
                  Some selectionRange \<Rightarrow>
                    (let targetRange' = getSourceRange targetSourceMap (targetRange link) in
                     Inr (Some (link\<lparr> targetUri := uri (sourceDocument targetSourceMap),
                                      targetRange := (case targetRange' of
                                                        None \<Rightarrow> selectionRange
                                                      | Some r \<Rightarrow> r),
                                      targetSelectionRange := selectionRange \<rparr>)))
                | None \<Rightarrow>
                    (if api_name = provideDefinition then
                       (let targetMap = getSourceMap ctx targetVirtualFile in
                        if uri (sourceDocument targetMap) \<noteq> URI_toString ctx queryUri
                        then Inr (Some (link\<lparr> targetUri := uri (sourceDocument targetMap),
                                              targetRange := zeroRange,
                                              targetSelectionRange := zeroRange \<rparr>))
                        else Inr None)
                     else Inr (Some link)))))"

text \<open>\<open>data.map(...).filter(notEmpty)\<close>: the links in order, the dropped ones left out.\<close>

fun transformResult ::
  "LanguageServiceContext \<Rightarrow> apiName \<Rightarrow> URI \<Rightarrow> Position \<Rightarrow> SourceMapWithDocuments option
     \<Rightarrow> LocationLink list \<Rightarrow> error + LocationLink list" where
  "transformResult ctx api_name queryUri position map' [] = Inr []"
| "transformResult ctx api_name queryUri position map' (link # data) =
     (case transformLink ctx api_name queryUri position map' link of
        Inl e \<Rightarrow> Inl e
      | Inr r \<Rightarrow>
          (case transformResult ctx api_name queryUri position map' data of
             Inl e \<Rightarrow> Inl e
           | Inr rs \<Rightarrow> Inr ((case r of None \<Rightarrow> [] | Some l \<Rightarrow> [l]) @ rs)))"

section \<open>What the spec says, for comparison\<close>




section \<open>A worked example\<close>

text \<open>
  The scenario of the spec: a source file \<open>T\<close> with one generated document, in which
  position \<open>(2,5)\<close> and position \<open>(45,1)\<close> mirror each other, and a second source
  file \<open>U\<close> whose generated document has no source mapping. The URIs are written and
  read by a small printer and parser for the form \<open>scheme://authority/path\<close>.
\<close>

definition exampleToString :: "URI \<Rightarrow> string" where
  "exampleToString u = scheme u @ ''://'' @ authority u @ path u"

definition exampleParse :: "string \<Rightarrow> error + URI" where
  "exampleParse s =
     (let sch = takeWhile (\<lambda>c. c \<noteq> CHR '':'') s;
          rest = drop (length sch + 3) s
      in Inr \<lparr> scheme = sch,
               authority = takeWhile (\<lambda>c. c \<noteq> CHR ''/'') rest,
               path = dropWhile (\<lambda>c. c \<noteq> CHR ''/'') rest,
               query = [], fragment = [] \<rparr>)"

text \<open>
  A printer that writes the authority in lower case, as the \<open>toString\<close> of
  \<open>vscode-uri\<close> does, and a URI with an upper-case authority.
\<close>

definition lowerCase :: "char \<Rightarrow> char" where
  "lowerCase c =
     (let k = (of_char c :: nat) in if 65 \<le> k \<and> k \<le> 90 then char_of (k + 32) else c)"

definition lowerAuthorityToString :: "URI \<Rightarrow> string" where
  "lowerAuthorityToString u = scheme u @ ''://'' @ map lowerCase (authority u) @ path u"

definition serverShare :: URI where
  "serverShare = \<lparr> scheme = ''file'', authority = ''SERVER'', path = ''/share'',
                   query = [], fragment = [] \<rparr>"

text \<open>An embedded code id with reserved characters, upper case and a two-octet character.\<close>

definition exampleId :: string where
  "exampleId = ''Slot #1/A%b'' @ [char_of (195 :: nat), char_of (169 :: nat)]"

definition posn :: "nat \<Rightarrow> nat \<Rightarrow> Position" where
  "posn l c = \<lparr> line = l, character = c \<rparr>"

definition rng :: "nat \<Rightarrow> nat \<Rightarrow> nat \<Rightarrow> nat \<Rightarrow> Range" where
  "rng l1 c1 l2 c2 = \<lparr> start = posn l1 c1, endp = posn l2 c2 \<rparr>"

definition sourceT :: URI where
  "sourceT = \<lparr> scheme = ''file'', authority = [], path = ''/T'', query = [], fragment = [] \<rparr>"

definition sourceU :: URI where
  "sourceU = \<lparr> scheme = ''file'', authority = [], path = ''/U'', query = [], fragment = [] \<rparr>"

definition genT :: VirtualCode where
  "genT = \<lparr> vc_id = ''gen'', vc_languageId = ''typescript'',
            vc_snapshot = \<lparr> snap_id = 1, snap_text = ''t'' \<rparr> \<rparr>"

definition genU :: VirtualCode where
  "genU = \<lparr> vc_id = ''gen'', vc_languageId = ''typescript'',
            vc_snapshot = \<lparr> snap_id = 3, snap_text = ''u'' \<rparr> \<rparr>"

definition scriptT :: SourceScript where
  "scriptT = \<lparr> script_id = sourceT, script_languageId = ''vue'',
               script_snapshot = \<lparr> snap_id = 0, snap_text = ''T'' \<rparr>,
               generated_embeddedCodes = Some [''gen'' \<mapsto> genT] \<rparr>"

definition scriptU :: SourceScript where
  "scriptU = \<lparr> script_id = sourceU, script_languageId = ''vue'',
               script_snapshot = \<lparr> snap_id = 2, snap_text = ''U'' \<rparr>,
               generated_embeddedCodes = Some [''gen'' \<mapsto> genU] \<rparr>"

definition rangesT :: "Range \<Rightarrow> Range list" where
  "rangesT r =
     (if r = rng 20 8 20 14 then [rng 9 0 9 6, rng 5 1 5 7]
      else if r = rng 45 1 45 7 then [rng 1 8 1 14]
      else [])"

definition mapT :: SourceMap where
  "mapT = \<lparr> sourceRange = (\<lambda>r. case rangesT r of [] \<Rightarrow> None | x # _ \<Rightarrow> Some x),
            sourceRanges = rangesT \<rparr>"

definition mapU :: SourceMap where
  "mapU = \<lparr> sourceRange = (\<lambda>r. None), sourceRanges = (\<lambda>r. []) \<rparr>"

definition mirrorsT :: "Position \<Rightarrow> Position list" where
  "mirrorsT p =
     (if p = posn 2 5 then [posn 45 1] else if p = posn 45 1 then [posn 2 5] else [])"

definition exampleContext :: LanguageServiceContext where
  "exampleContext =
     \<lparr> URI_parse = exampleParse,
       URI_toString = exampleToString,
       scripts_get = (\<lambda>u. if u = sourceT then Some scriptT
                           else if u = sourceU then Some scriptU else None),
       scripts_fromVirtualCode = (\<lambda>vc. if vc = genU then scriptU else scriptT),
       maps_get = (\<lambda>vc. if vc = genT then mapT else mapU),
       linkedCodeMaps_get = (\<lambda>vc. if vc = genT then Some mirrorsT else None),
       documents = emptyDocuments \<rparr>"

definition genTUri :: string where
  "genTUri = ''volar-embedded-content://gen/file%3A%2F%2F%2FT''"

definition genUUri :: string where
  "genUUri = ''volar-embedded-content://gen/file%3A%2F%2F%2FU''"

definition genTDocument :: TextDocument where
  "genTDocument = \<lparr> uri = genTUri, languageId = ''typescript'', version = 0, doc_text = ''t'' \<rparr>"

definition sourceUDocument :: TextDocument where
  "sourceUDocument = \<lparr> uri = ''file:///U'', languageId = ''vue'', version = 0, doc_text = ''U'' \<rparr>"

definition candidateC1 :: LocationLink where
  "candidateC1 = \<lparr> originSelectionRange = Some (rng 20 8 20 14), targetUri = genTUri,
                   targetRange = rng 2 5 2 20, targetSelectionRange = rng 2 5 2 11 \<rparr>"

definition candidateC2 :: LocationLink where
  "candidateC2 = \<lparr> originSelectionRange = Some (rng 45 1 45 7), targetUri = genTUri,
                   targetRange = rng 45 1 45 30, targetSelectionRange = rng 45 1 45 7 \<rparr>"

text \<open>A candidate in a plain file whose declaration starts before its name.\<close>

definition candidateD :: LocationLink where
  "candidateD = \<lparr> originSelectionRange = None, targetUri = ''file:///U'',
                  targetRange = rng 3 0 5 1, targetSelectionRange = rng 3 9 3 12 \<rparr>"

text \<open>Links into the generated documents at ranges that no source map entry covers.\<close>

definition unmappedInU :: LocationLink where
  "unmappedInU = \<lparr> originSelectionRange = None, targetUri = genUUri,
                   targetRange = rng 7 0 7 9, targetSelectionRange = rng 7 2 7 5 \<rparr>"

definition unmappedInT :: LocationLink where
  "unmappedInT = \<lparr> originSelectionRange = None, targetUri = genTUri,
                   targetRange = rng 7 0 7 9, targetSelectionRange = rng 7 2 7 5 \<rparr>"

text \<open>The link into the generated document of \<open>U\<close> with an origin range that no source
  range covers, and with one that two source ranges cover.\<close>

definition unmappedOriginInU :: LocationLink where
  "unmappedOriginInU = unmappedInU\<lparr> originSelectionRange := Some (rng 0 0 0 1) \<rparr>"

definition mappedOriginInU :: LocationLink where
  "mappedOriginInU = unmappedInU\<lparr> originSelectionRange := Some (rng 20 8 20 14) \<rparr>"

definition exampleAnalyzer :: analyzer where
  "exampleAnalyzer doc p cancelled =
     (if p = posn 20 10 then Some [candidateC1]
      else if p = posn 45 1 then Some [candidateC2]
      else if p = posn 3 9 then Some [candidateD]
      else None)"

text \<open>
  An analyzer with two candidates at the seed, the first with a mirror and the second in
  a plain file. A candidate at \<open>(2,5)\<close> whose declaration starts before its name, at
  \<open>(2,0)\<close>, and an analyzer that finds it from the seed and from its own name.
\<close>

definition twoCandidates :: analyzer where
  "twoCandidates doc p cancelled =
     (if p = posn 20 10 then Some [candidateC1, candidateD]
      else if p = posn 45 1 then Some [candidateC2]
      else None)"

definition candidateA :: LocationLink where
  "candidateA = \<lparr> originSelectionRange = Some (rng 20 8 20 14), targetUri = genTUri,
                  targetRange = rng 2 0 2 20, targetSelectionRange = rng 2 5 2 11 \<rparr>"

definition cycleAnalyzer :: analyzer where
  "cycleAnalyzer doc p cancelled =
     (if p = posn 20 10 then Some [candidateA]
      else if p = posn 2 5 then Some [candidateA]
      else if p = posn 45 1 then Some [candidateC2]
      else None)"

section \<open>Properties of search states\<close>

text \<open>
  A state extends another when nothing was taken from the visited set, from the results
  or from the list of analyzer calls. A search is growing when every state it returns
  extends the state it was given.
\<close>

definition extends :: "search_state \<Rightarrow> search_state \<Rightarrow> bool" where
  "extends s s' =
     (recursiveChecker s \<subseteq> recursiveChecker s'
      \<and> (\<exists>ext. result s' = result s @ ext)
      \<and> (\<exists>calls. analyzerCalls s' = analyzerCalls s @ calls))"

definition growing :: "search \<Rightarrow> bool" where
  "growing search =
     (\<forall>doc pos origin t t'. search doc pos origin t = Some (Inr t') \<longrightarrow> extends t t')"

text \<open>
  The locations that a mirror-following call can be made at: the mirror positions of the
  linked code maps of the context, each with the URI of the document of its map.
\<close>

definition mirrorKeys :: "LanguageServiceContext \<Rightarrow> (string \<times> Range) set" where
  "mirrorKeys ctx =
     {(uri (document lm), pointRange p) | lm d q p.
        linkedCodeMapOf ctx d = Inr (Some lm) \<and> p \<in> set (getLinkedCodePositions lm q)}"

definition returning :: "(string \<times> Range) set \<Rightarrow> nat \<Rightarrow> search \<Rightarrow> bool" where
  "returning U n search =
     (\<forall>doc pos origin t.
        (uri doc, pointRange pos) \<in> U
        \<longrightarrow> card (U - insert (uri doc, pointRange pos) (recursiveChecker t)) < n
        \<longrightarrow> search doc pos origin t \<noteq> None)"

text \<open>
  A search is below another when the other returns whatever it returns; it is bounded by
  a set of locations when the visited set only grows by the location of the call and by
  members of the set; it carries the origin when every link it adds has the origin
  selection range of the origin link it was given. \<open>candidateKeys\<close> are the locations
  the search marks for the candidates of an analyzer.
\<close>

definition below :: "search \<Rightarrow> search \<Rightarrow> bool" where
  "below search search' =
     (\<forall>doc pos origin t r. search doc pos origin t = Some r \<longrightarrow> search' doc pos origin t = Some r)"

definition candidateKeys :: "analyzer option \<Rightarrow> (string \<times> Range) set" where
  "candidateKeys api =
     {(targetUri d, pointRange (start (targetRange d))) | f doc p c ds d.
        api = Some f \<and> f doc p c = Some ds \<and> d \<in> set ds}"

definition bounded :: "(string \<times> Range) set \<Rightarrow> search \<Rightarrow> bool" where
  "bounded B search =
     (\<forall>doc pos origin t t'.
        search doc pos origin t = Some (Inr t')
        \<longrightarrow> recursiveChecker t' \<subseteq> insert (uri doc, pointRange pos) (recursiveChecker t \<union> B))"

definition carries :: "search \<Rightarrow> bool" where
  "carries search =
     (\<forall>doc pos origin t t'.
        search doc pos (Some origin) t = Some (Inr t')
        \<longrightarrow> (\<exists>ext. result t' = result t @ ext
                   \<and> (\<forall>l\<in>set ext. originSelectionRange l = originSelectionRange origin)))"

text \<open>
  A candidate has an unvisited mirror in a state when, once its target is marked, its
  target has a linked code map with a mirror position, of the start of its target
  selection range, that is not in the visited set. \<open>pushTerminal\<close> is the step for a
  candidate that is a result: its target marked, the link pushed.
\<close>

definition unvisitedMirror :: "LanguageServiceContext \<Rightarrow> LocationLink \<Rightarrow> search_state \<Rightarrow> bool" where
  "unvisitedMirror ctx d t =
     (case linkedCodeMapOf ctx d of
        Inr (Some lm) \<Rightarrow>
          (\<exists>p\<in>set (getLinkedCodePositions lm (start (targetSelectionRange d))).
             (uri (document lm), pointRange p) \<notin> recursiveChecker (markTarget d t))
      | _ \<Rightarrow> False)"

definition pushTerminal :: "LocationLink option \<Rightarrow> LocationLink \<Rightarrow> search_state \<Rightarrow> search_state" where
  "pushTerminal originDefinition d t =
     (markTarget d t)\<lparr> result := result t @ [emitted originDefinition d] \<rparr>"

section \<open>The worked example: tokens and states\<close>

text \<open>
  A token that is never cancelled, and one that is cancelled once the first analyzer call
  has returned. The states of the search of the example: after the analyzer was asked at
  the seed \<open>(20,10)\<close>, at the end, and at the end with the analyzer of two candidates.
\<close>

definition notCancelled :: "nat \<Rightarrow> bool" where
  "notCancelled k = False"

definition cancelledAfterFirstCall :: "nat \<Rightarrow> bool" where
  "cancelledAfterFirstCall k = (1 \<le> k)"

definition exampleLinked :: LinkedCodeMapWithDocument where
  "exampleLinked = \<lparr> document = genTDocument, getLinkedCodePositions = mirrorsT \<rparr>"

definition exampleSeeded :: search_state where
  "exampleSeeded =
     \<lparr> recursiveChecker = {(genTUri, pointRange (posn 20 10))},
       result = [],
       analyzerCalls = [(genTDocument, posn 20 10)] \<rparr>"

definition exampleFinal :: search_state where
  "exampleFinal =
     \<lparr> recursiveChecker = {(genTUri, pointRange (posn 20 10)), (genTUri, pointRange (posn 2 5)),
                            (genTUri, pointRange (posn 45 1))},
       result = [candidateC2\<lparr> originSelectionRange := originSelectionRange candidateC1 \<rparr>],
       analyzerCalls = [(genTDocument, posn 20 10), (genTDocument, posn 45 1)] \<rparr>"

definition twoCandidatesFinal :: search_state where
  "twoCandidatesFinal =
     \<lparr> recursiveChecker = {(genTUri, pointRange (posn 20 10)), (genTUri, pointRange (posn 2 5)),
                            (genTUri, pointRange (posn 45 1)), (''file:///U'', pointRange (posn 3 0))},
       result = [candidateC2\<lparr> originSelectionRange := originSelectionRange candidateC1 \<rparr>,
                 candidateD],
       analyzerCalls = [(genTDocument, posn 20 10), (genTDocument, posn 45 1)] \<rparr>"

section \<open>Properties of the document cache\<close>

text \<open>
  The document stored for a snapshot and a URI string, the next version of a URI string,
  and the invariant of the cache: a stored document has a version below the next version
  of its URI, and the documents of one URI under different snapshots differ in version.
  A call is keyed by the identity of its snapshot and the string of its URI.
\<close>

definition storedDoc :: "documents_state \<Rightarrow> nat \<times> string \<Rightarrow> TextDocument option" where
  "storedDoc st key =
     (case snapshot2Doc st (fst key) of None \<Rightarrow> None | Some m \<Rightarrow> m (snd key))"

definition nextVersion :: "documents_state \<Rightarrow> string \<Rightarrow> nat" where
  "nextVersion st k = (case documentVersions st k of None \<Rightarrow> 0 | Some v \<Rightarrow> v)"

definition cache_ok :: "documents_state \<Rightarrow> bool" where
  "cache_ok st =
     ((\<forall>sid k d. storedDoc st (sid, k) = Some d \<longrightarrow> version d < nextVersion st k)
      \<and> (\<forall>sid sid' k d d'. storedDoc st (sid, k) = Some d \<and> storedDoc st (sid', k) = Some d'
             \<and> sid \<noteq> sid' \<longrightarrow> version d \<noteq> version d'))"

definition callKey :: "(URI \<Rightarrow> string) \<Rightarrow> URI \<times> string \<times> IScriptSnapshot \<Rightarrow> nat \<times> string" where
  "callKey toStr c = (snap_id (snd (snd c)), toStr (fst c))"

text \<open>Five calls: two URIs, three snapshots, one pair asked for twice.\<close>

definition exampleCalls :: "(URI \<times> string \<times> IScriptSnapshot) list" where
  "exampleCalls =
     [(sourceT, ''vue'', \<lparr> snap_id = 0, snap_text = ''a'' \<rparr>),
      (sourceT, ''vue'', \<lparr> snap_id = 1, snap_text = ''b'' \<rparr>),
      (sourceT, ''vue'', \<lparr> snap_id = 0, snap_text = ''a'' \<rparr>),
      (sourceU, ''vue'', \<lparr> snap_id = 0, snap_text = ''a'' \<rparr>),
      (sourceT, ''vue'', \<lparr> snap_id = 5, snap_text = ''c'' \<rparr>)]"

section \<open>Addressing: encoding and decoding are inverse\<close>

lemma hexValue_hexDigit: "n < 16 \<Longrightarrow> hexValue (hexDigit n) = Some n"
  by (auto simp: hexValue_def hexDigit_def Let_def)

lemma unreserved_not_percent: "unreserved c \<Longrightarrow> c \<noteq> CHR ''%''"
  by (auto simp: unreserved_def Let_def)

lemma unreserved_ascii: "unreserved c \<Longrightarrow> (of_char c :: nat) < 128"
  by (auto simp: unreserved_def Let_def)

lemma hexValue_escape:
  "hexValue (hexDigit ((of_char c :: nat) div 16)) = Some ((of_char c :: nat) div 16)"
  "hexValue (hexDigit ((of_char c :: nat) mod 16)) = Some ((of_char c :: nat) mod 16)"
proof -
  have "(of_char c :: nat) div 16 < 16"
    using nat_of_char_less_256 [of c] by arith
  then show "hexValue (hexDigit ((of_char c :: nat) div 16)) = Some ((of_char c :: nat) div 16)"
    by (rule hexValue_hexDigit)
  show "hexValue (hexDigit ((of_char c :: nat) mod 16)) = Some ((of_char c :: nat) mod 16)"
    by (rule hexValue_hexDigit) simp
qed

lemma encodeChar_high:
  "128 \<le> (of_char c :: nat)
   \<Longrightarrow> encodeChar c = [CHR ''%'', hexDigit ((of_char c :: nat) div 16), hexDigit ((of_char c :: nat) mod 16)]"
  using unreserved_ascii [of c] by (auto simp: encodeChar_def)

lemma readEscapes_encoded:
  "\<forall>c\<in>set bs. 128 \<le> (of_char c :: nat)
   \<Longrightarrow> readEscapes (concat (map encodeChar bs)) = Some (map of_char bs)"
proof (induction bs)
  case Nil
  show ?case by simp
next
  case (Cons b bs)
  then have "readEscapes (concat (map encodeChar bs)) = Some (map of_char bs)" by simp
  moreover have "16 * ((of_char b :: nat) div 16) + (of_char b :: nat) mod 16 = of_char b"
    by simp
  ultimately show ?case
    using Cons.prems by (simp add: encodeChar_high hexValue_escape)
qed

lemma length_encoded:
  "\<forall>c\<in>set bs. 128 \<le> (of_char c :: nat) \<Longrightarrow> length (concat (map encodeChar bs)) = 3 * length bs"
  by (induction bs) (simp_all add: encodeChar_high)

lemma validOctets_continuation:
  "validOctets (b # os) \<Longrightarrow> \<forall>x\<in>set os. 128 \<le> x"
  by (induction "b # os" arbitrary: os rule: validOctets.induct)
    (auto simp: continuation_def split: if_splits)

lemma decode_ascii:
  assumes "(of_char c :: nat) < 128"
  shows "decodeURIComponent (encodeChar c @ rest) =
     (case decodeURIComponent rest of None \<Rightarrow> None | Some r \<Rightarrow> Some (c # r))"
proof (cases "unreserved c")
  case True
  then show ?thesis
    using unreserved_not_percent [OF True] by (simp add: encodeChar_def)
next
  case False
  have "16 * ((of_char c :: nat) div 16) + (of_char c :: nat) mod 16 = of_char c" by simp
  with False assms show ?thesis
    by (simp add: encodeChar_def hexValue_escape split: option.splits)
qed

lemma decode_multi:
  assumes B: "128 \<le> (of_char c :: nat)"
    and n: "octetCount (of_char c) \<noteq> 0"
    and l: "length bs = octetCount (of_char c) - 1"
    and v: "validOctets (of_char c # map of_char bs)"
  shows "decodeURIComponent (encodeChar c @ concat (map encodeChar bs) @ rest) =
     (case decodeURIComponent rest of None \<Rightarrow> None | Some r \<Rightarrow> Some (c # bs @ r))"
proof -
  from validOctets_continuation [OF v] have h: "\<forall>x\<in>set bs. 128 \<le> (of_char x :: nat)" by simp
  have len: "length (concat (map encodeChar bs)) = 3 * (octetCount (of_char c) - 1)"
    using length_encoded [OF h] l by simp
  have tk: "take (3 * (octetCount (of_char c) - 1)) (concat (map encodeChar bs) @ rest)
              = concat (map encodeChar bs)"
    using len by simp
  have dr: "drop (3 * (octetCount (of_char c) - 1)) (concat (map encodeChar bs) @ rest) = rest"
    using len by simp
  have e: "16 * ((of_char c :: nat) div 16) + (of_char c :: nat) mod 16 = of_char c" by simp
  have m: "map char_of (map (of_char :: char \<Rightarrow> nat) bs) = bs"
    by (induction bs) simp_all
  have ge: "\<not> (of_char c :: nat) < 128" using B by simp
  have le: "\<not> length (concat (map encodeChar bs) @ rest) < 3 * (octetCount (of_char c) - 1)"
    using len by simp
  have r: "readEscapes (take (3 * (octetCount (of_char c) - 1)) (concat (map encodeChar bs) @ rest))
             = Some (map of_char bs)"
    using tk readEscapes_encoded [OF h] by simp
  have d: "decodeURIComponent (CHR ''%'' # h1 # h2 # xs) =
      (case decodeURIComponent (drop (3 * (octetCount (of_char c) - 1)) xs) of
         None \<Rightarrow> None
       | Some r \<Rightarrow> Some (map char_of (of_char c # os) @ r))"
    if "hexValue h1 = Some ((of_char c :: nat) div 16)"
      and "hexValue h2 = Some ((of_char c :: nat) mod 16)"
      and "\<not> length xs < 3 * (octetCount (of_char c) - 1)"
      and "readEscapes (take (3 * (octetCount (of_char c) - 1)) xs) = Some os"
      and "validOctets (of_char c # os)"
    for h1 h2 xs os
    using that n ge e by (simp add: Let_def del: validOctets.simps)
  show ?thesis
    unfolding encodeChar_high [OF B] append_Cons append_Nil
    by (subst d [OF hexValue_escape le r v], subst dr) (simp add: m cong: option.case_cong)
qed

lemma encodeURIComponent_append:
  "encodeURIComponent (xs @ ys) = encodeURIComponent xs @ encodeURIComponent ys"
  by (simp add: encodeURIComponent_def)

lemma decode_encodeURIComponent:
  "wellFormedUTF8 s \<Longrightarrow> decodeURIComponent (encodeURIComponent s) = Some s"
proof (induction s rule: wellFormedUTF8.induct)
  case 1
  show ?case by (simp add: encodeURIComponent_def)
next
  case (2 c cs)
  show ?case
  proof (cases "(of_char c :: nat) < 128")
    case True
    with "2.prems" have "wellFormedUTF8 cs" by simp
    with "2.IH"(1) True have "decodeURIComponent (encodeURIComponent cs) = Some cs" by simp
    moreover have "encodeURIComponent (c # cs) = encodeChar c @ encodeURIComponent cs"
      by (simp add: encodeURIComponent_def)
    ultimately show ?thesis by (simp add: decode_ascii [OF True])
  next
    case False
    let ?n = "octetCount (of_char c)"
    let ?bs = "take (?n - 1) cs"
    let ?rest = "drop (?n - 1) cs"
    from False "2.prems" have n: "?n \<noteq> 0" and l: "?n - 1 \<le> length cs"
      and v: "validOctets (of_char c # map of_char ?bs)" and w: "wellFormedUTF8 ?rest"
      by (simp_all add: Let_def)
    from "2.IH"(2) [OF refl False refl w]
    have ih: "decodeURIComponent (encodeURIComponent ?rest) = Some ?rest" .
    have len: "length ?bs = ?n - 1" using l by simp
    have "c # cs = [c] @ ?bs @ ?rest" by simp
    then have "encodeURIComponent (c # cs)
                 = encodeChar c @ concat (map encodeChar ?bs) @ encodeURIComponent ?rest"
      by (metis append_Cons append_Nil concat.simps(2) encodeURIComponent_append
          encodeURIComponent_def list.simps(9))
    moreover have B: "128 \<le> (of_char c :: nat)" using False by simp
    ultimately show ?thesis
      using decode_multi [OF B n len v, of "encodeURIComponent ?rest"] ih by simp
  qed
qed

text \<open>
  C4, as amended. For a well-formed embedded code id and source URI string, decoding the
  encoded pair gives the id back as it was, whatever characters it holds, with the URI
  that \<open>URI.parse\<close> reads from the string of the source URI: the source URI itself
  exactly when \<open>URI.parse\<close> reads it back from its own string. Decoding a URI of any
  other scheme gives none, without an error.
\<close>

theorem decode_of_encode:
  "(wellFormedUTF8 embeddedContentId \<and> wellFormedUTF8 (toStr u) \<longrightarrow>
      decodeEmbeddedDocumentUri parse (encodeEmbeddedDocumentUri toStr u embeddedContentId)
        = (case parse (toStr u) of
             Inl e \<Rightarrow> Inl e
           | Inr u' \<Rightarrow> Inr (Some (u', embeddedContentId))))
   \<and> (scheme x \<noteq> embeddedContentScheme \<longrightarrow> decodeEmbeddedDocumentUri parse x = Inr None)"
  by (simp add: decodeEmbeddedDocumentUri_def encodeEmbeddedDocumentUri_def
      decode_encodeURIComponent)

text \<open>
  C4 as stated fails for a source URI with an upper-case authority: the URI that comes
  back is the one parsed from its string, with the authority in lower case.
\<close>

theorem uppercase_authority_not_restored:
  "decodeEmbeddedDocumentUri exampleParse
      (encodeEmbeddedDocumentUri lowerAuthorityToString serverShare ''gen'')
     = Inr (Some (serverShare\<lparr> authority := ''server'' \<rparr>, ''gen''))
   \<and> serverShare\<lparr> authority := ''server'' \<rparr> \<noteq> serverShare"
  by code_simp

theorem decode_of_encode_witness:
  "wellFormedUTF8 exampleId
   \<and> wellFormedUTF8 (exampleToString sourceT)
   \<and> decodeEmbeddedDocumentUri exampleParse
         (encodeEmbeddedDocumentUri exampleToString sourceT exampleId)
       = Inr (Some (sourceT, exampleId))
   \<and> scheme sourceU \<noteq> embeddedContentScheme
   \<and> decodeEmbeddedDocumentUri exampleParse sourceU = Inr None"
proof -
  have w: "wellFormedUTF8 exampleId \<and> wellFormedUTF8 (exampleToString sourceT)"
    by code_simp
  have p: "exampleParse (exampleToString sourceT) = Inr sourceT"
    by (simp add: exampleParse_def exampleToString_def sourceT_def)
  have q: "scheme sourceU \<noteq> embeddedContentScheme"
    by (simp add: sourceU_def embeddedContentScheme_def)
  show ?thesis
    using w p q decode_of_encode [of exampleId exampleToString sourceT exampleParse sourceU]
    by simp
qed

section \<open>The projector: one link, and the list of links\<close>





lemma refineOrigin_target:
  "refineOrigin map' position link0 = Some link
   \<Longrightarrow> targetUri link = targetUri link0 \<and> targetRange link = targetRange link0
       \<and> targetSelectionRange link = targetSelectionRange link0"
  by (auto simp: refineOrigin_def split: option.splits)

lemma transformLink_unmapped:
  assumes r: "refineOrigin map' position link0 = Some link"
    and v: "targetVirtualCode ctx (targetUri link0) = Inr (Some (sourceScript, targetVirtualFile))"
    and u: "getSourceRange (getSourceMap ctx targetVirtualFile) (targetSelectionRange link0) = None"
  shows "transformLink ctx api_name queryUri position map' link0 =
           (if api_name = provideDefinition then
              (if uri (sourceDocument (getSourceMap ctx targetVirtualFile)) \<noteq> URI_toString ctx queryUri
               then Inr (Some (link\<lparr> targetUri := uri (sourceDocument (getSourceMap ctx targetVirtualFile)),
                                     targetRange := zeroRange, targetSelectionRange := zeroRange \<rparr>))
               else Inr None)
            else Inr (Some link))"
proof -
  from refineOrigin_target [OF r] v u
  have "targetVirtualCode ctx (targetUri link) = Inr (Some (sourceScript, targetVirtualFile))"
    and "getSourceRange (getSourceMap ctx targetVirtualFile) (targetSelectionRange link) = None"
    by simp_all
  with r show ?thesis by (simp add: transformLink_def Let_def)
qed

lemma transformResult_append:
  "transformResult ctx k q p m (xs @ ys) =
     (case transformResult ctx k q p m xs of
        Inl e \<Rightarrow> Inl e
      | Inr rs \<Rightarrow> (case transformResult ctx k q p m ys of
                     Inl e \<Rightarrow> Inl e
                   | Inr rs' \<Rightarrow> Inr (rs @ rs')))"
proof (induction xs)
  case Nil
  show ?case by (simp split: sum.splits)
next
  case (Cons x xs)
  show ?case
    by (cases "transformLink ctx k q p m x"; cases "transformResult ctx k q p m xs";
        cases "transformResult ctx k q p m ys") (simp_all add: Cons.IH)
qed

lemma transformResult_splice:
  "transformResult ctx k q p m (xs @ l # ys) =
     (case transformResult ctx k q p m xs of
        Inl e \<Rightarrow> Inl e
      | Inr a \<Rightarrow>
          (case transformLink ctx k q p m l of
             Inl e \<Rightarrow> Inl e
           | Inr r \<Rightarrow>
               (case transformResult ctx k q p m ys of
                  Inl e \<Rightarrow> Inl e
                | Inr b \<Rightarrow> Inr (a @ (case r of None \<Rightarrow> [] | Some l' \<Rightarrow> [l']) @ b))))"
  by (cases "transformResult ctx k q p m xs"; cases "transformLink ctx k q p m l";
      cases "transformResult ctx k q p m ys") (simp_all add: transformResult_append)

lemma transformResult_dropped:
  assumes "transformLink ctx k q p m l = Inr None"
  shows "transformResult ctx k q p m (xs @ l # ys) = transformResult ctx k q p m (xs @ ys)"
proof -
  have "transformResult ctx k q p m (l # ys) = transformResult ctx k q p m ys"
    using assms by (simp split: sum.splits)
  then show ?thesis by (simp only: transformResult_append)
qed



text \<open>The URIs of the worked example.\<close>

lemma example_parse_genT:
  "exampleParse genTUri = Inr (encodeEmbeddedDocumentUri exampleToString sourceT ''gen'')"
  by code_simp

lemma example_parse_genU:
  "exampleParse genUUri = Inr (encodeEmbeddedDocumentUri exampleToString sourceU ''gen'')"
  by code_simp

lemma example_decode_genT:
  "decodeEmbeddedDocumentUri exampleParse (encodeEmbeddedDocumentUri exampleToString sourceT ''gen'')
     = Inr (Some (sourceT, ''gen''))"
  by code_simp

lemma example_decode_genU:
  "decodeEmbeddedDocumentUri exampleParse (encodeEmbeddedDocumentUri exampleToString sourceU ''gen'')
     = Inr (Some (sourceU, ''gen''))"
  by code_simp

lemma sourceU_neq_sourceT: "sourceU \<noteq> sourceT"
  by (simp add: sourceU_def sourceT_def)

lemma genU_neq_genT: "genU \<noteq> genT"
  by (simp add: genU_def genT_def)

lemma example_target_genT:
  "targetVirtualCode exampleContext genTUri = Inr (Some (scriptT, genT))"
  by (simp add: targetVirtualCode_def exampleContext_def example_parse_genT example_decode_genT
      scriptT_def)

lemma example_target_genU:
  "targetVirtualCode exampleContext genUUri = Inr (Some (scriptU, genU))"
  by (simp add: targetVirtualCode_def exampleContext_def example_parse_genU example_decode_genU
      scriptU_def sourceU_neq_sourceT)

lemma example_parse_sourceU: "exampleParse ''file:///U'' = Inr sourceU"
  by code_simp

lemma example_target_sourceU: "targetVirtualCode exampleContext ''file:///U'' = Inr None"
  by (simp add: targetVirtualCode_def exampleContext_def example_parse_sourceU
      decodeEmbeddedDocumentUri_def sourceU_def embeddedContentScheme_def)

section \<open>The projector: the origin range\<close>



section \<open>The projector: targets in generated documents\<close>

text \<open>
  C7, as amended. Under the definition kind, a link that passes the origin step, whose
  target URI decodes to a generated document and whose target selection range has no
  source range, is in the output as a stub at the start of the owning source document
  when that document is not the queried one, and is left out when it is the queried
  one; the stub keeps the origin range of the link as the origin step mapped it. A link
  that does not pass the origin step is left out, stub or no stub.
\<close>

theorem definition_stub:
  "(refineOrigin map' position link0 = Some link
      \<and> targetVirtualCode ctx (targetUri link0) = Inr (Some (sourceScript, targetVirtualFile))
      \<and> getSourceRange (getSourceMap ctx targetVirtualFile) (targetSelectionRange link0) = None
    \<longrightarrow> transformResult ctx provideDefinition queryUri position map' (xs @ link0 # ys)
          = (case transformResult ctx provideDefinition queryUri position map' xs of
               Inl e \<Rightarrow> Inl e
             | Inr a \<Rightarrow>
                 (case transformResult ctx provideDefinition queryUri position map' ys of
                    Inl e \<Rightarrow> Inl e
                  | Inr b \<Rightarrow>
                      Inr (a
                           @ (if uri (sourceDocument (getSourceMap ctx targetVirtualFile))
                                   \<noteq> URI_toString ctx queryUri
                              then [link\<lparr> targetUri :=
                                            uri (sourceDocument (getSourceMap ctx targetVirtualFile)),
                                          targetRange := zeroRange,
                                          targetSelectionRange := zeroRange \<rparr>]
                              else [])
                           @ b))))
   \<and> (refineOrigin map' position link0 = None
      \<longrightarrow> transformResult ctx provideDefinition queryUri position map' (xs @ link0 # ys)
            = transformResult ctx provideDefinition queryUri position map' (xs @ ys))"
proof (intro conjI impI)
  assume a: "refineOrigin map' position link0 = Some link
      \<and> targetVirtualCode ctx (targetUri link0) = Inr (Some (sourceScript, targetVirtualFile))
      \<and> getSourceRange (getSourceMap ctx targetVirtualFile) (targetSelectionRange link0) = None"
  then have "transformLink ctx provideDefinition queryUri position map' link0 =
           (if uri (sourceDocument (getSourceMap ctx targetVirtualFile)) \<noteq> URI_toString ctx queryUri
            then Inr (Some (link\<lparr> targetUri := uri (sourceDocument (getSourceMap ctx targetVirtualFile)),
                                  targetRange := zeroRange, targetSelectionRange := zeroRange \<rparr>))
            else Inr None)"
    using transformLink_unmapped [of map' position link0 link ctx sourceScript targetVirtualFile
        provideDefinition queryUri]
    by simp
  then show "transformResult ctx provideDefinition queryUri position map' (xs @ link0 # ys)
          = (case transformResult ctx provideDefinition queryUri position map' xs of
               Inl e \<Rightarrow> Inl e
             | Inr a \<Rightarrow>
                 (case transformResult ctx provideDefinition queryUri position map' ys of
                    Inl e \<Rightarrow> Inl e
                  | Inr b \<Rightarrow>
                      Inr (a
                           @ (if uri (sourceDocument (getSourceMap ctx targetVirtualFile))
                                   \<noteq> URI_toString ctx queryUri
                              then [link\<lparr> targetUri :=
                                            uri (sourceDocument (getSourceMap ctx targetVirtualFile)),
                                          targetRange := zeroRange,
                                          targetSelectionRange := zeroRange \<rparr>]
                              else [])
                           @ b)))"
    by (simp add: transformResult_splice split: sum.splits)
next
  assume "refineOrigin map' position link0 = None"
  then have "transformLink ctx provideDefinition queryUri position map' link0 = Inr None"
    by (simp add: transformLink_def)
  then show "transformResult ctx provideDefinition queryUri position map' (xs @ link0 # ys)
            = transformResult ctx provideDefinition queryUri position map' (xs @ ys)"
    by (rule transformResult_dropped)
qed

text \<open>
  C7 as stated fails for a link with an origin range that has no source range: its
  target is in the generated document of \<open>U\<close>, not the queried \<open>T\<close>, and has no source
  range, the kind is the definition kind, and no stub comes out.
\<close>

theorem unmappable_origin_no_stub:
  "transformResult exampleContext provideDefinition sourceT (posn 5 3)
      (Some (getSourceMap exampleContext genT)) [unmappedOriginInU] = Inr []
   \<and> targetVirtualCode exampleContext (targetUri unmappedOriginInU) = Inr (Some (scriptU, genU))
   \<and> getSourceRange (getSourceMap exampleContext genU) (targetSelectionRange unmappedOriginInU)
       = None
   \<and> uri (sourceDocument (getSourceMap exampleContext genU)) = ''file:///U''
   \<and> URI_toString exampleContext sourceT = ''file:///T''"
proof -
  have "transformResult exampleContext provideDefinition sourceT (posn 5 3)
      (Some (getSourceMap exampleContext genT)) [unmappedOriginInU] = Inr []"
    by code_simp
  moreover have "targetVirtualCode exampleContext (targetUri unmappedOriginInU)
                   = Inr (Some (scriptU, genU))"
    by (simp add: unmappedOriginInU_def unmappedInU_def example_target_genU)
  moreover have "getSourceRange (getSourceMap exampleContext genU)
                   (targetSelectionRange unmappedOriginInU) = None"
    by code_simp
  moreover have "uri (sourceDocument (getSourceMap exampleContext genU)) = ''file:///U''"
    by code_simp
  moreover have "URI_toString exampleContext sourceT = ''file:///T''"
    by code_simp
  ultimately show ?thesis by blast
qed

theorem definition_stub_witness:
  "transformResult exampleContext provideDefinition sourceT (posn 5 3)
      (Some (getSourceMap exampleContext genT)) ([] @ mappedOriginInU # [unmappedInT, candidateD])
     = Inr [\<lparr> originSelectionRange = Some (rng 5 1 5 7), targetUri = ''file:///U'',
               targetRange = zeroRange, targetSelectionRange = zeroRange \<rparr>,
            candidateD]
   \<and> transformResult exampleContext provideDefinition sourceT (posn 5 3)
        (Some (getSourceMap exampleContext genT)) ([candidateD] @ unmappedInT # [candidateD])
     = Inr [candidateD, candidateD]
   \<and> transformResult exampleContext provideDefinition sourceT (posn 5 3)
        (Some (getSourceMap exampleContext genT)) ([candidateD] @ unmappedOriginInU # [candidateD])
     = Inr [candidateD, candidateD]"
proof -
  let ?m = "Some (getSourceMap exampleContext genT)"
  let ?refined = "mappedOriginInU\<lparr> originSelectionRange := Some (rng 5 1 5 7) \<rparr>"
  have rU: "refineOrigin ?m (posn 5 3) mappedOriginInU = Some ?refined"
    by code_simp
  have rT: "refineOrigin ?m (posn 5 3) unmappedInT = Some unmappedInT"
    by (simp add: refineOrigin_def unmappedInT_def)
  have rN: "refineOrigin ?m (posn 5 3) unmappedOriginInU = None"
    by code_simp
  have vU: "targetVirtualCode exampleContext (targetUri mappedOriginInU) = Inr (Some (scriptU, genU))"
    by (simp add: mappedOriginInU_def unmappedInU_def example_target_genU)
  have vT: "targetVirtualCode exampleContext (targetUri unmappedInT) = Inr (Some (scriptT, genT))"
    by (simp add: unmappedInT_def example_target_genT)
  have uU: "getSourceRange (getSourceMap exampleContext genU) (targetSelectionRange mappedOriginInU) = None"
    by code_simp
  have uT: "getSourceRange (getSourceMap exampleContext genT) (targetSelectionRange unmappedInT) = None"
    by code_simp
  have oU: "uri (sourceDocument (getSourceMap exampleContext genU)) = ''file:///U''"
    by code_simp
  have oT: "uri (sourceDocument (getSourceMap exampleContext genT)) = ''file:///T''"
    by code_simp
  have q: "URI_toString exampleContext sourceT = ''file:///T''"
    by code_simp
  have e: "transformResult exampleContext provideDefinition sourceT (posn 5 3) ?m [] = Inr []"
    by simp
  have d: "transformResult exampleContext provideDefinition sourceT (posn 5 3) ?m [candidateD]
             = Inr [candidateD]"
    by code_simp
  have td: "transformResult exampleContext provideDefinition sourceT (posn 5 3) ?m
              [unmappedInT, candidateD] = Inr [candidateD]"
    by code_simp
  have s: "?refined\<lparr> targetUri := ''file:///U'', targetRange := zeroRange,
                      targetSelectionRange := zeroRange \<rparr>
           = \<lparr> originSelectionRange = Some (rng 5 1 5 7), targetUri = ''file:///U'',
               targetRange = zeroRange, targetSelectionRange = zeroRange \<rparr>"
    by (simp add: mappedOriginInU_def unmappedInU_def)
  have a: "transformResult exampleContext provideDefinition sourceT (posn 5 3) ?m
             ([] @ mappedOriginInU # [unmappedInT, candidateD])
           = Inr [\<lparr> originSelectionRange = Some (rng 5 1 5 7), targetUri = ''file:///U'',
                     targetRange = zeroRange, targetSelectionRange = zeroRange \<rparr>,
                  candidateD]"
    using definition_stub [of ?m "posn 5 3" mappedOriginInU ?refined exampleContext scriptU genU
        sourceT "[]" "[unmappedInT, candidateD]"] rU vU uU
    by (simp only: e td oU q s sum.case) simp
  have b: "transformResult exampleContext provideDefinition sourceT (posn 5 3) ?m
             ([candidateD] @ unmappedInT # [candidateD]) = Inr [candidateD, candidateD]"
    using definition_stub [of ?m "posn 5 3" unmappedInT unmappedInT exampleContext scriptT genT
        sourceT "[candidateD]" "[candidateD]"] rT vT uT
    by (simp only: d oT q sum.case) simp
  have c: "transformResult exampleContext provideDefinition sourceT (posn 5 3) ?m
             ([candidateD] @ unmappedOriginInU # [candidateD]) = Inr [candidateD, candidateD]"
  proof -
    have dd: "transformResult exampleContext provideDefinition sourceT (posn 5 3) ?m
                ([candidateD] @ [candidateD]) = Inr [candidateD, candidateD]"
      by code_simp
    from definition_stub [of ?m "posn 5 3" unmappedOriginInU _ exampleContext _ _
        sourceT "[candidateD]" "[candidateD]"] rN
    have "transformResult exampleContext provideDefinition sourceT (posn 5 3) ?m
            ([candidateD] @ unmappedOriginInU # [candidateD])
          = transformResult exampleContext provideDefinition sourceT (posn 5 3) ?m
              ([candidateD] @ [candidateD])"
      by blast
    with dd show ?thesis by (simp only:)
  qed
  from a b c show ?thesis by blast
qed




section \<open>The search: states only grow\<close>

lemma growingD: "growing search \<Longrightarrow> search doc pos origin t = Some (Inr t') \<Longrightarrow> extends t t'"
  by (simp add: growing_def)

lemma extends_refl: "extends s s"
  by (simp add: extends_def)

lemma extends_trans: "extends s t \<Longrightarrow> extends t u \<Longrightarrow> extends s u"
  unfolding extends_def by (metis append.assoc subset_trans)

lemma forLinkedPos_extends:
  assumes g: "growing search"
  shows "forLinkedPos search lm og ps f s = Some (Inr (f', s')) \<Longrightarrow> extends s s'"
proof (induction ps arbitrary: f s)
  case Nil
  then show ?case by (simp add: extends_refl)
next
  case (Cons p ps)
  show ?case
  proof (cases "(uri (document lm), pointRange p) \<in> recursiveChecker s")
    case True
    with Cons show ?thesis by simp
  next
    case False
    with Cons.prems obtain t where
      t: "search (document lm) p (Some og) s = Some (Inr t)"
      and r: "forLinkedPos search lm og ps True t = Some (Inr (f', s'))"
      by (auto split: option.splits sum.splits)
    from growingD [OF g t] Cons.IH [OF r] show ?thesis by (rule extends_trans)
  qed
qed

lemma markTarget_extends: "extends s (markTarget d s)"
  by (auto simp: extends_def markTarget_def)

lemma push_extends: "extends s (s\<lparr> result := result s @ [l] \<rparr>)"
  by (simp add: extends_def)

lemma forDefinition_extends:
  assumes g: "growing search"
    and r: "forDefinition search ctx od d s = Some (Inr s')"
  shows "extends s s'"
proof (cases "linkedCodeMapOf ctx d")
  case (Inl e)
  with r show ?thesis by (simp add: forDefinition_def)
next
  case (Inr lmo)
  show ?thesis
  proof (cases lmo)
    case None
    with Inr r have "s' = (markTarget d s)\<lparr> result := result (markTarget d s) @ [emitted od d] \<rparr>"
      by (simp add: forDefinition_def Let_def)
    then show ?thesis
      using extends_trans [OF markTarget_extends push_extends] by simp
  next
    case (Some lm)
    with Inr r obtain f' s2 where
      l: "forLinkedPos search lm (originOr od d)
            (getLinkedCodePositions lm (start (targetSelectionRange d))) False (markTarget d s)
          = Some (Inr (f', s2))"
      and s': "s' = (if \<not> f' then s2\<lparr> result := result s2 @ [emitted od d] \<rparr> else s2)"
      by (auto simp: forDefinition_def Let_def split: option.splits sum.splits if_splits)
    have "extends (markTarget d s) s2" by (rule forLinkedPos_extends [OF g l])
    then have "extends s s2" by (rule extends_trans [OF markTarget_extends])
    moreover have "extends s2 s'" using s' by (simp add: push_extends extends_refl)
    ultimately show ?thesis by (rule extends_trans)
  qed
qed

lemma forDefinitions_extends:
  assumes g: "growing search"
  shows "forDefinitions search ctx od ds s = Some (Inr s') \<Longrightarrow> extends s s'"
proof (induction ds arbitrary: s)
  case Nil
  then show ?case by (simp add: extends_refl)
next
  case (Cons d ds)
  then obtain t where t: "forDefinition search ctx od d s = Some (Inr t)"
    and r: "forDefinitions search ctx od ds t = Some (Inr s')"
    by (auto split: option.splits sum.splits)
  from forDefinition_extends [OF g t] Cons.IH [OF r] show ?case
    by (rule extends_trans)
qed

lemma withLinkedCode_growing: "growing (withLinkedCode n ctx api token)"
proof (induction n)
  case 0
  show ?case by (simp add: growing_def)
next
  case (Suc n)
  show ?case
    unfolding growing_def
  proof (intro allI impI)
    fix doc pos origin s s'
    assume p: "withLinkedCode (Suc n) ctx api token doc pos origin s = Some (Inr s')"
    show "extends s s'"
  proof (cases api)
    case None
    with p show ?thesis by (simp add: extends_refl)
  next
    case (Some f)
    show ?thesis
    proof (cases "(uri doc, pointRange pos) \<in> recursiveChecker s")
      case True
      with Some p show ?thesis by (simp add: extends_refl)
    next
      case False
      define s2 where "s2 = s\<lparr> recursiveChecker := insert (uri doc, pointRange pos) (recursiveChecker s),
                              analyzerCalls := analyzerCalls s @ [(doc, pos)] \<rparr>"
      from False Some p obtain ds where
        r: "forDefinitions (withLinkedCode n ctx api token) ctx origin ds s2 = Some (Inr s')"
        by (simp add: Let_def s2_def)
      have "extends s s2" by (auto simp: extends_def s2_def)
      moreover have "extends s2 s'"
        by (rule forDefinitions_extends [OF Suc.IH r])
      ultimately show ?thesis by (rule extends_trans)
    qed
  qed
  qed
qed

lemma withLinkedCode_extends:
  "withLinkedCode n ctx api token doc pos origin s = Some (Inr s') \<Longrightarrow> extends s s'"
  by (rule growingD [OF withLinkedCode_growing])

section \<open>The search returns\<close>

lemma returningD:
  "returning U n search \<Longrightarrow> (uri doc, pointRange pos) \<in> U
   \<Longrightarrow> card (U - insert (uri doc, pointRange pos) (recursiveChecker t)) < n
   \<Longrightarrow> search doc pos origin t \<noteq> None"
  by (simp add: returning_def)

lemma card_Diff_insert_less:
  assumes "finite U" "k \<in> U" "k \<notin> V" "card (U - V) \<le> n"
  shows "card (U - insert k V) < n"
proof -
  have "k \<in> U - V" using assms by simp
  moreover have "finite (U - V)" using assms by simp
  moreover have "U - insert k V = (U - V) - {k}" by auto
  ultimately have "card (U - insert k V) < card (U - V)"
    using card_Diff1_less [of "U - V" k] by simp
  with assms(4) show ?thesis by simp
qed

lemma card_Diff_mono:
  assumes "finite U" "V \<subseteq> V'"
  shows "card (U - V') \<le> card (U - V)"
  by (rule card_mono) (use assms in auto)

lemma forLinkedPos_returns:
  assumes fin: "finite U"
    and a: "returning U n search"
    and g: "growing search"
  shows "\<forall>p\<in>set ps. (uri (document lm), pointRange p) \<in> U
         \<Longrightarrow> card (U - recursiveChecker s) \<le> n
         \<Longrightarrow> forLinkedPos search lm og ps f s \<noteq> None"
proof (induction ps arbitrary: f s)
  case Nil
  show ?case by simp
next
  case (Cons p ps)
  show ?case
  proof (cases "(uri (document lm), pointRange p) \<in> recursiveChecker s")
    case True
    with Cons show ?thesis by simp
  next
    case False
    have k: "(uri (document lm), pointRange p) \<in> U" using Cons.prems(1) by simp
    have "card (U - insert (uri (document lm), pointRange p) (recursiveChecker s)) < n"
      by (rule card_Diff_insert_less [OF fin k False Cons.prems(2)])
    from returningD [OF a k this] obtain r where r: "search (document lm) p (Some og) s = Some r"
      by blast
    show ?thesis
    proof (cases r)
      case (Inl e)
      with r False show ?thesis by simp
    next
      case (Inr t)
      with r have "extends s t" using growingD [OF g] by blast
      then have "card (U - recursiveChecker t) \<le> card (U - recursiveChecker s)"
        using card_Diff_mono [OF fin] by (simp add: extends_def)
      with Cons.prems(2) have "card (U - recursiveChecker t) \<le> n" by simp
      with Cons.IH [of t True] Cons.prems(1)
      have "forLinkedPos search lm og ps True t \<noteq> None" by simp
      with r Inr False show ?thesis by simp
    qed
  qed
qed

lemma mirrorKeysI:
  "linkedCodeMapOf ctx d = Inr (Some lm) \<Longrightarrow> p \<in> set (getLinkedCodePositions lm q)
   \<Longrightarrow> (uri (document lm), pointRange p) \<in> mirrorKeys ctx"
  unfolding mirrorKeys_def by blast

lemma forDefinition_returns:
  assumes fin: "finite (mirrorKeys ctx)"
    and a: "returning (mirrorKeys ctx) n search"
    and g: "growing search"
    and c: "card (mirrorKeys ctx - recursiveChecker s) \<le> n"
  shows "forDefinition search ctx od d s \<noteq> None"
proof (cases "linkedCodeMapOf ctx d")
  case (Inl e)
  then show ?thesis by (simp add: forDefinition_def)
next
  case (Inr lmo)
  show ?thesis
  proof (cases lmo)
    case None
    with Inr show ?thesis by (simp add: forDefinition_def Let_def)
  next
    case (Some lm)
    have "extends s (markTarget d s)" by (rule markTarget_extends)
    then have "card (mirrorKeys ctx - recursiveChecker (markTarget d s))
                 \<le> card (mirrorKeys ctx - recursiveChecker s)"
      using card_Diff_mono [OF fin] by (simp add: extends_def)
    with c have c': "card (mirrorKeys ctx - recursiveChecker (markTarget d s)) \<le> n" by simp
    have m: "\<forall>p\<in>set (getLinkedCodePositions lm (start (targetSelectionRange d))).
               (uri (document lm), pointRange p) \<in> mirrorKeys ctx"
      using Inr Some by (auto intro: mirrorKeysI)
    have "forLinkedPos search lm (originOr od d)
            (getLinkedCodePositions lm (start (targetSelectionRange d))) False (markTarget d s)
          \<noteq> None"
      by (rule forLinkedPos_returns [OF fin a g m c'])
    with Inr Some show ?thesis
      by (auto simp: forDefinition_def Let_def split: sum.splits)
  qed
qed

lemma forDefinitions_returns:
  assumes fin: "finite (mirrorKeys ctx)"
    and a: "returning (mirrorKeys ctx) n search"
    and g: "growing search"
  shows "card (mirrorKeys ctx - recursiveChecker s) \<le> n
         \<Longrightarrow> forDefinitions search ctx od ds s \<noteq> None"
proof (induction ds arbitrary: s)
  case Nil
  show ?case by simp
next
  case (Cons d ds)
  have "forDefinition search ctx od d s \<noteq> None"
    by (rule forDefinition_returns [OF fin a g Cons.prems])
  then obtain r where r: "forDefinition search ctx od d s = Some r" by blast
  show ?case
  proof (cases r)
    case (Inl e)
    with r show ?thesis by simp
  next
    case (Inr t)
    with r have "extends s t" using forDefinition_extends [OF g] by blast
    then have "card (mirrorKeys ctx - recursiveChecker t)
                 \<le> card (mirrorKeys ctx - recursiveChecker s)"
      using card_Diff_mono [OF fin] by (simp add: extends_def)
    with Cons.prems have "card (mirrorKeys ctx - recursiveChecker t) \<le> n" by simp
    from Cons.IH [OF this] r Inr show ?thesis by simp
  qed
qed

lemma withLinkedCode_returns:
  assumes fin: "finite (mirrorKeys ctx)"
  shows "card (mirrorKeys ctx - insert (uri doc, pointRange pos) (recursiveChecker s)) < n
         \<Longrightarrow> withLinkedCode n ctx api token doc pos origin s \<noteq> None"
proof (induction n arbitrary: doc pos origin s)
  case 0
  then show ?case by simp
next
  case (Suc n)
  have ret: "returning (mirrorKeys ctx) n (withLinkedCode n ctx api token)"
    unfolding returning_def using Suc.IH by blast
  show ?case
  proof (cases api)
    case None
    then show ?thesis by simp
  next
    case (Some f)
    show ?thesis
    proof (cases "(uri doc, pointRange pos) \<in> recursiveChecker s")
      case True
      with Some show ?thesis by simp
    next
      case False
      define s2 where "s2 = s\<lparr> recursiveChecker := insert (uri doc, pointRange pos) (recursiveChecker s),
                              analyzerCalls := analyzerCalls s @ [(doc, pos)] \<rparr>"
      have c: "card (mirrorKeys ctx - recursiveChecker s2) \<le> n"
        using Suc.prems by (simp add: s2_def)
      have "forDefinitions (withLinkedCode n ctx api token) ctx origin ds s2 \<noteq> None" for ds
        by (rule forDefinitions_returns [OF fin ret withLinkedCode_growing c])
      with False Some show ?thesis by (simp add: Let_def s2_def)
    qed
  qed
qed

section \<open>More depth does not change what the search returns\<close>

lemma belowD: "below search search' \<Longrightarrow> search doc pos origin t = Some r
  \<Longrightarrow> search' doc pos origin t = Some r"
  by (simp add: below_def)

lemma forLinkedPos_below:
  assumes b: "below search search'"
  shows "forLinkedPos search lm og ps f s = Some r \<Longrightarrow> forLinkedPos search' lm og ps f s = Some r"
proof (induction ps arbitrary: f s)
  case Nil
  then show ?case by simp
next
  case (Cons p ps)
  show ?case
  proof (cases "(uri (document lm), pointRange p) \<in> recursiveChecker s")
    case True
    with Cons show ?thesis by simp
  next
    case False
    with Cons.prems obtain x where x: "search (document lm) p (Some og) s = Some x"
      by (auto split: option.splits)
    note x' = belowD [OF b x]
    show ?thesis
    proof (cases x)
      case (Inl e)
      with x x' False Cons.prems show ?thesis by auto
    next
      case (Inr t)
      with x False Cons.prems have "forLinkedPos search lm og ps True t = Some r" by simp
      from Cons.IH [OF this] x' Inr False show ?thesis by simp
    qed
  qed
qed

lemma forDefinition_below:
  assumes b: "below search search'"
    and r: "forDefinition search ctx od d s = Some r"
  shows "forDefinition search' ctx od d s = Some r"
proof (cases "linkedCodeMapOf ctx d")
  case (Inl e)
  with r show ?thesis by (simp add: forDefinition_def)
next
  case (Inr lmo)
  show ?thesis
  proof (cases lmo)
    case None
    with Inr r show ?thesis by (simp add: forDefinition_def)
  next
    case (Some lm)
    with Inr r obtain x where
      x: "forLinkedPos search lm (originOr od d)
            (getLinkedCodePositions lm (start (targetSelectionRange d))) False (markTarget d s)
          = Some x"
      by (auto simp: forDefinition_def Let_def split: option.splits)
    from forLinkedPos_below [OF b x] x Inr Some r show ?thesis
      by (simp add: forDefinition_def Let_def)
  qed
qed

lemma forDefinitions_below:
  assumes b: "below search search'"
  shows "forDefinitions search ctx od ds s = Some r \<Longrightarrow> forDefinitions search' ctx od ds s = Some r"
proof (induction ds arbitrary: s)
  case Nil
  then show ?case by simp
next
  case (Cons d ds)
  then obtain x where x: "forDefinition search ctx od d s = Some x"
    by (auto split: option.splits)
  note x' = forDefinition_below [OF b x]
  show ?case
  proof (cases x)
    case (Inl e)
    with x x' Cons.prems show ?thesis by auto
  next
    case (Inr t)
    with x Cons.prems have "forDefinitions search ctx od ds t = Some r" by simp
    from Cons.IH [OF this] x' Inr show ?thesis by simp
  qed
qed

lemma withLinkedCode_below_Suc:
  "below (withLinkedCode n ctx api token) (withLinkedCode (Suc n) ctx api token)"
proof (induction n)
  case 0
  show ?case by (simp add: below_def)
next
  case (Suc n)
  show ?case
    unfolding below_def
  proof (intro allI impI)
    fix doc pos origin t r
    assume a: "withLinkedCode (Suc n) ctx api token doc pos origin t = Some r"
    show "withLinkedCode (Suc (Suc n)) ctx api token doc pos origin t = Some r"
    proof (cases api)
      case None
      with a show ?thesis by simp
    next
      case (Some f)
      show ?thesis
      proof (cases "(uri doc, pointRange pos) \<in> recursiveChecker t")
        case True
        with Some a show ?thesis by simp
      next
        case False
        with Some a obtain ds s2 where
          "forDefinitions (withLinkedCode n ctx api token) ctx origin ds s2 = Some r"
          and e: "withLinkedCode (Suc (Suc n)) ctx api token doc pos origin t =
                forDefinitions (withLinkedCode (Suc n) ctx api token) ctx origin ds s2"
          by (simp add: Let_def)
        from forDefinitions_below [OF Suc.IH this(1)] e show ?thesis by simp
      qed
    qed
  qed
qed

lemma withLinkedCode_more_fuel:
  "withLinkedCode n ctx api token doc pos origin s = Some r
   \<Longrightarrow> withLinkedCode (n + k) ctx api token doc pos origin s = Some r"
proof (induction k)
  case 0
  then show ?case by simp
next
  case (Suc k)
  from belowD [OF withLinkedCode_below_Suc Suc.IH [OF Suc.prems]] show ?case by simp
qed

section \<open>The visited set stays within the reachable locations\<close>

lemma boundedD:
  "bounded B search \<Longrightarrow> search doc pos origin t = Some (Inr t')
   \<Longrightarrow> recursiveChecker t' \<subseteq> insert (uri doc, pointRange pos) (recursiveChecker t \<union> B)"
  by (simp add: bounded_def)

lemma forLinkedPos_bounded:
  assumes b: "bounded B search"
  shows "\<forall>p\<in>set ps. (uri (document lm), pointRange p) \<in> B
         \<Longrightarrow> forLinkedPos search lm og ps f s = Some (Inr (f', s'))
         \<Longrightarrow> recursiveChecker s' \<subseteq> recursiveChecker s \<union> B"
proof (induction ps arbitrary: f s)
  case Nil
  then show ?case by auto
next
  case (Cons p ps)
  show ?case
  proof (cases "(uri (document lm), pointRange p) \<in> recursiveChecker s")
    case True
    with Cons show ?thesis by simp
  next
    case False
    with Cons.prems obtain t where
      t: "search (document lm) p (Some og) s = Some (Inr t)"
      and r: "forLinkedPos search lm og ps True t = Some (Inr (f', s'))"
      by (auto split: option.splits sum.splits)
    have "recursiveChecker s' \<subseteq> recursiveChecker t \<union> B"
      using Cons.IH [OF _ r] Cons.prems(1) by simp
    moreover have "recursiveChecker t \<subseteq> insert (uri (document lm), pointRange p) (recursiveChecker s \<union> B)"
      by (rule boundedD [OF b t])
    moreover have "(uri (document lm), pointRange p) \<in> B" using Cons.prems(1) by simp
    ultimately show ?thesis by blast
  qed
qed

lemma forDefinition_bounded:
  assumes b: "bounded B search"
    and m: "mirrorKeys ctx \<subseteq> B"
    and k: "(targetUri d, pointRange (start (targetRange d))) \<in> B"
    and r: "forDefinition search ctx od d s = Some (Inr s')"
  shows "recursiveChecker s' \<subseteq> recursiveChecker s \<union> B"
proof -
  have mk: "recursiveChecker (markTarget d s) \<subseteq> recursiveChecker s \<union> B"
    using k by (auto simp: markTarget_def)
  show ?thesis
  proof (cases "linkedCodeMapOf ctx d")
    case (Inl e)
    with r show ?thesis by (simp add: forDefinition_def)
  next
    case (Inr lmo)
    show ?thesis
    proof (cases lmo)
      case None
      with Inr r have "recursiveChecker s' = recursiveChecker (markTarget d s)"
        by (auto simp: forDefinition_def Let_def)
      with mk show ?thesis by simp
    next
      case (Some lm)
      with Inr r obtain f' s2 where
        l: "forLinkedPos search lm (originOr od d)
              (getLinkedCodePositions lm (start (targetSelectionRange d))) False (markTarget d s)
            = Some (Inr (f', s2))"
        and s': "recursiveChecker s' = recursiveChecker s2"
        by (auto simp: forDefinition_def Let_def split: option.splits sum.splits if_splits)
      have "\<forall>p\<in>set (getLinkedCodePositions lm (start (targetSelectionRange d))).
              (uri (document lm), pointRange p) \<in> B"
        using Inr Some m by (auto dest: mirrorKeysI)
      from forLinkedPos_bounded [OF b this l] mk s' show ?thesis by blast
    qed
  qed
qed

lemma forDefinitions_bounded:
  assumes b: "bounded B search"
    and m: "mirrorKeys ctx \<subseteq> B"
  shows "\<forall>d\<in>set ds. (targetUri d, pointRange (start (targetRange d))) \<in> B
         \<Longrightarrow> forDefinitions search ctx od ds s = Some (Inr s')
         \<Longrightarrow> recursiveChecker s' \<subseteq> recursiveChecker s \<union> B"
proof (induction ds arbitrary: s)
  case Nil
  then show ?case by auto
next
  case (Cons d ds)
  from Cons.prems(2) obtain t where t: "forDefinition search ctx od d s = Some (Inr t)"
    and r: "forDefinitions search ctx od ds t = Some (Inr s')"
    by (auto split: option.splits sum.splits)
  have "recursiveChecker t \<subseteq> recursiveChecker s \<union> B"
    by (rule forDefinition_bounded [OF b m _ t]) (use Cons.prems(1) in simp)
  moreover have "recursiveChecker s' \<subseteq> recursiveChecker t \<union> B"
    using Cons.IH [OF _ r] Cons.prems(1) by simp
  ultimately show ?case by blast
qed

lemma candidateKeysI:
  "f doc p c = Some ds \<Longrightarrow> d \<in> set ds
   \<Longrightarrow> (targetUri d, pointRange (start (targetRange d))) \<in> candidateKeys (Some f)"
  unfolding candidateKeys_def by blast

lemma withLinkedCode_bounded:
  "bounded (mirrorKeys ctx \<union> candidateKeys api) (withLinkedCode n ctx api token)"
proof (induction n)
  case 0
  show ?case by (simp add: bounded_def)
next
  case (Suc n)
  let ?B = "mirrorKeys ctx \<union> candidateKeys api"
  show ?case
    unfolding bounded_def
  proof (intro allI impI)
    fix doc pos origin s s'
    assume p: "withLinkedCode (Suc n) ctx api token doc pos origin s = Some (Inr s')"
    show "recursiveChecker s' \<subseteq> insert (uri doc, pointRange pos) (recursiveChecker s \<union> ?B)"
    proof (cases api)
      case None
      with p show ?thesis by auto
    next
      case (Some f)
      show ?thesis
      proof (cases "(uri doc, pointRange pos) \<in> recursiveChecker s")
        case True
        with Some p show ?thesis by auto
      next
        case False
        define s2 where "s2 = s\<lparr> recursiveChecker := insert (uri doc, pointRange pos) (recursiveChecker s),
                                analyzerCalls := analyzerCalls s @ [(doc, pos)] \<rparr>"
        define ds where "ds = (case f doc pos (token (length (analyzerCalls s))) of
                                 None \<Rightarrow> [] | Some ds \<Rightarrow> ds)"
        from False Some p have
          r: "forDefinitions (withLinkedCode n ctx api token) ctx origin ds s2 = Some (Inr s')"
          by (simp add: Let_def s2_def ds_def)
        have "\<forall>d\<in>set ds. (targetUri d, pointRange (start (targetRange d))) \<in> ?B"
        proof
          fix d
          assume d: "d \<in> set ds"
          then obtain ds' where "f doc pos (token (length (analyzerCalls s))) = Some ds'"
            and "d \<in> set ds'"
            by (cases "f doc pos (token (length (analyzerCalls s)))") (auto simp: ds_def)
          from candidateKeysI [of f doc pos "token (length (analyzerCalls s))" ds' d, OF this] Some
          show "(targetUri d, pointRange (start (targetRange d))) \<in> ?B" by simp
        qed
        from forDefinitions_bounded [OF Suc.IH _ this r]
        have "recursiveChecker s' \<subseteq> recursiveChecker s2 \<union> ?B" by blast
        then show ?thesis by (auto simp: s2_def)
      qed
    qed
  qed
qed

lemma withLinkedCode_immediate_or_new:
  assumes "withLinkedCode n ctx api token doc pos origin s = Some (Inr s')"
  shows "s' = s \<or> (uri doc, pointRange pos) \<in> recursiveChecker s' - recursiveChecker s"
proof (cases n)
  case 0
  with assms show ?thesis by simp
next
  case (Suc m)
  show ?thesis
  proof (cases "api = None \<or> (uri doc, pointRange pos) \<in> recursiveChecker s")
    case True
    with assms Suc show ?thesis by (auto split: option.splits)
  next
    case False
    then obtain f where f: "api = Some f" by auto
    define s2 where "s2 = s\<lparr> recursiveChecker := insert (uri doc, pointRange pos) (recursiveChecker s),
                            analyzerCalls := analyzerCalls s @ [(doc, pos)] \<rparr>"
    from False f assms Suc obtain ds where
      r: "forDefinitions (withLinkedCode m ctx api token) ctx origin ds s2 = Some (Inr s')"
      by (simp add: Let_def s2_def)
    from forDefinitions_extends [OF withLinkedCode_growing r]
    have "(uri doc, pointRange pos) \<in> recursiveChecker s'"
      by (auto simp: extends_def s2_def)
    with False show ?thesis by simp
  qed
qed

text \<open>
  C2. When the mirror positions of the linked code maps are finitely many, the search
  returns: at a depth of one more than the number of mirror locations not yet visited,
  and with the same value at every greater depth. A call that returns a state has
  either left the state as it was or added its own location to the visited set, and
  the visited set stays within the locations it started with, the location of the call,
  the mirror locations and the targets of the analyzer's candidates.
\<close>

theorem search_terminates:
  assumes fin: "finite (mirrorKeys ctx)"
  shows "(\<exists>r. \<forall>k. withLinkedCode (Suc (card (mirrorKeys ctx - recursiveChecker s)) + k)
                     ctx api token doc pos origin s = Some r)
    \<and> (\<forall>n s'. withLinkedCode n ctx api token doc pos origin s = Some (Inr s') \<longrightarrow>
          (s' = s \<or> (uri doc, pointRange pos) \<in> recursiveChecker s' - recursiveChecker s)
          \<and> recursiveChecker s'
              \<subseteq> insert (uri doc, pointRange pos)
                   (recursiveChecker s \<union> (mirrorKeys ctx \<union> candidateKeys api)))"
proof (intro conjI allI impI)
  let ?n = "Suc (card (mirrorKeys ctx - recursiveChecker s))"
  have "card (mirrorKeys ctx - insert (uri doc, pointRange pos) (recursiveChecker s))
          \<le> card (mirrorKeys ctx - recursiveChecker s)"
    by (rule card_Diff_mono [OF fin]) auto
  then have "card (mirrorKeys ctx - insert (uri doc, pointRange pos) (recursiveChecker s)) < ?n"
    by simp
  from withLinkedCode_returns [OF fin this]
  obtain r where r: "withLinkedCode ?n ctx api token doc pos origin s = Some r" by blast
  have "\<forall>k. withLinkedCode (?n + k) ctx api token doc pos origin s = Some r"
    using withLinkedCode_more_fuel [OF r] by blast
  then show "\<exists>r. \<forall>k. withLinkedCode (?n + k) ctx api token doc pos origin s = Some r"
    by blast
next
  fix n s'
  assume "withLinkedCode n ctx api token doc pos origin s = Some (Inr s')"
  then show "s' = s \<or> (uri doc, pointRange pos) \<in> recursiveChecker s' - recursiveChecker s"
    by (rule withLinkedCode_immediate_or_new)
next
  fix n s'
  assume "withLinkedCode n ctx api token doc pos origin s = Some (Inr s')"
  then show "recursiveChecker s'
              \<subseteq> insert (uri doc, pointRange pos)
                   (recursiveChecker s \<union> (mirrorKeys ctx \<union> candidateKeys api))"
    by (rule boundedD [OF withLinkedCode_bounded])
qed

lemma example_targets:
  assumes "targetVirtualCode exampleContext x = Inr (Some (ss, vc))"
  shows "(ss, vc) = (scriptT, genT) \<or> (ss, vc) = (scriptU, genU)"
  using assms
  by (auto simp: targetVirtualCode_def exampleContext_def scriptT_def scriptU_def
      split: sum.splits option.splits if_splits)

lemma example_linked_document:
  "uri (fst (documents_get exampleToString emptyDocuments
               (encodeEmbeddedDocumentUri exampleToString sourceT ''gen'')
               (vc_languageId genT) (vc_snapshot genT))) = genTUri"
  by code_simp

lemma example_linkedCodeMap:
  assumes "linkedCodeMapOf exampleContext d = Inr (Some lm)"
  shows "uri (document lm) = genTUri \<and> getLinkedCodePositions lm = mirrorsT"
proof -
  from assms obtain ss vc where
    t: "targetVirtualCode exampleContext (targetUri d) = Inr (Some (ss, vc))"
    and g: "getLinkedCodeMap exampleContext vc (script_id ss) = Some lm"
    by (auto simp: linkedCodeMapOf_def split: sum.splits option.splits)
  from example_targets [OF t] have "(ss, vc) = (scriptT, genT) \<or> (ss, vc) = (scriptU, genU)" .
  then show ?thesis
  proof
    assume "(ss, vc) = (scriptT, genT)"
    with g have "lm = \<lparr> document = fst (documents_get exampleToString emptyDocuments
               (encodeEmbeddedDocumentUri exampleToString sourceT ''gen'')
               (vc_languageId genT) (vc_snapshot genT)), getLinkedCodePositions = mirrorsT \<rparr>"
      by (simp add: getLinkedCodeMap_def exampleContext_def scriptT_def Let_def)
        (simp add: genT_def)
    then show ?thesis using example_linked_document by simp
  next
    assume "(ss, vc) = (scriptU, genU)"
    with g show ?thesis
      by (simp add: getLinkedCodeMap_def exampleContext_def genU_neq_genT)
  qed
qed

lemma example_mirrorKeys:
  "mirrorKeys exampleContext
     \<subseteq> {(genTUri, pointRange (posn 45 1)), (genTUri, pointRange (posn 2 5))}"
proof
  fix k
  assume "k \<in> mirrorKeys exampleContext"
  then obtain lm d q p where k: "k = (uri (document lm), pointRange p)"
    and l: "linkedCodeMapOf exampleContext d = Inr (Some lm)"
    and p: "p \<in> set (getLinkedCodePositions lm q)"
    unfolding mirrorKeys_def by blast
  from example_linkedCodeMap [OF l] p have "uri (document lm) = genTUri" and "p \<in> set (mirrorsT q)"
    by simp_all
  with k show "k \<in> {(genTUri, pointRange (posn 45 1)), (genTUri, pointRange (posn 2 5))}"
    by (auto simp: mirrorsT_def split: if_splits)
qed

lemma example_mirrorKeys_finite: "finite (mirrorKeys exampleContext)"
  by (rule finite_subset [OF example_mirrorKeys]) simp

section \<open>The search: which candidates are results\<close>

lemma forLinkedPos_found:
  "forLinkedPos search lm og ps f s = Some (Inr (f', s'))
   \<Longrightarrow> f' = (f \<or> (\<exists>p\<in>set ps. (uri (document lm), pointRange p) \<notin> recursiveChecker s))"
proof (induction ps arbitrary: f s)
  case Nil
  then show ?case by simp
next
  case (Cons p ps)
  show ?case
  proof (cases "(uri (document lm), pointRange p) \<in> recursiveChecker s")
    case True
    with Cons.prems have "forLinkedPos search lm og ps f s = Some (Inr (f', s'))" by simp
    from Cons.IH [OF this] True show ?thesis by simp
  next
    case False
    with Cons.prems obtain t where
      "forLinkedPos search lm og ps True t = Some (Inr (f', s'))"
      by (auto split: option.splits sum.splits)
    from Cons.IH [OF this] False show ?thesis by auto
  qed
qed

lemma forLinkedPos_all_visited:
  "\<forall>p\<in>set ps. (uri (document lm), pointRange p) \<in> recursiveChecker s
   \<Longrightarrow> forLinkedPos search lm og ps f s = Some (Inr (f, s))"
  by (induction ps) simp_all

lemma markTarget_result: "result (markTarget d s) = result s"
  by (simp add: markTarget_def)

lemma forDefinition_terminal:
  assumes "\<forall>e. linkedCodeMapOf ctx d \<noteq> Inl e"
    and "\<forall>lm. linkedCodeMapOf ctx d = Inr (Some lm) \<longrightarrow>
           (\<forall>p\<in>set (getLinkedCodePositions lm (start (targetSelectionRange d))).
              (uri (document lm), pointRange p) \<in> recursiveChecker (markTarget d s))"
  shows "forDefinition search ctx od d s
           = Some (Inr ((markTarget d s)\<lparr> result := result s @ [emitted od d] \<rparr>))"
proof (cases "linkedCodeMapOf ctx d")
  case (Inl e)
  with assms(1) show ?thesis by simp
next
  case (Inr lmo)
  show ?thesis
  proof (cases lmo)
    case None
    with Inr show ?thesis by (simp add: forDefinition_def Let_def markTarget_result)
  next
    case (Some lm)
    with Inr assms(2) have "\<forall>p\<in>set (getLinkedCodePositions lm (start (targetSelectionRange d))).
              (uri (document lm), pointRange p) \<in> recursiveChecker (markTarget d s)" by simp
    from forLinkedPos_all_visited [OF this] Inr Some show ?thesis
      by (simp add: forDefinition_def Let_def markTarget_result)
  qed
qed

lemma forDefinition_cases:
  assumes r: "forDefinition search ctx od d s = Some (Inr s')"
  shows "(if \<exists>lm. linkedCodeMapOf ctx d = Inr (Some lm)
               \<and> (\<exists>p\<in>set (getLinkedCodePositions lm (start (targetSelectionRange d))).
                     (uri (document lm), pointRange p) \<notin> recursiveChecker (markTarget d s))
          then \<exists>lm. linkedCodeMapOf ctx d = Inr (Some lm)
                 \<and> forLinkedPos search lm (originOr od d)
                       (getLinkedCodePositions lm (start (targetSelectionRange d))) False
                       (markTarget d s)
                     = Some (Inr (True, s'))
          else s' = (markTarget d s)\<lparr> result := result s @ [emitted od d] \<rparr>)"
proof (cases "linkedCodeMapOf ctx d")
  case (Inl e)
  with r show ?thesis by (simp add: forDefinition_def)
next
  case (Inr lmo)
  show ?thesis
  proof (cases lmo)
    case None
    with Inr r show ?thesis by (auto simp: forDefinition_def Let_def markTarget_result)
  next
    case (Some lm)
    with Inr r obtain f' s2 where
      l: "forLinkedPos search lm (originOr od d)
            (getLinkedCodePositions lm (start (targetSelectionRange d))) False (markTarget d s)
          = Some (Inr (f', s2))"
      and s': "s' = (if \<not> f' then s2\<lparr> result := result s2 @ [emitted od d] \<rparr> else s2)"
      by (auto simp: forDefinition_def Let_def split: option.splits sum.splits if_splits)
    note f = forLinkedPos_found [OF l]
    show ?thesis
    proof (cases f')
      case True
      with f l s' Inr Some show ?thesis by auto
    next
      case False
      with f have v: "\<forall>p\<in>set (getLinkedCodePositions lm (start (targetSelectionRange d))).
              (uri (document lm), pointRange p) \<in> recursiveChecker (markTarget d s)" by simp
      from forLinkedPos_all_visited [OF v, of search "originOr od d" False] l
      have "s2 = markTarget d s" by simp
      with False s' v Inr Some show ?thesis by (auto simp: markTarget_result)
    qed
  qed
qed

lemma unvisitedMirror_iff:
  "unvisitedMirror ctx d t
     = (\<exists>lm. linkedCodeMapOf ctx d = Inr (Some lm)
           \<and> (\<exists>p\<in>set (getLinkedCodePositions lm (start (targetSelectionRange d))).
                 (uri (document lm), pointRange p) \<notin> recursiveChecker (markTarget d t)))"
  by (simp add: unvisitedMirror_def split: sum.splits option.splits)

lemma forDefinitions_trace:
  "forDefinitions search ctx od ds s = Some (Inr s')
   \<Longrightarrow> \<exists>ts. length ts = Suc (length ds) \<and> ts ! 0 = s \<and> ts ! length ds = s'
          \<and> (\<forall>i<length ds.
                forDefinition search ctx od (ds ! i) (ts ! i) = Some (Inr (ts ! Suc i)))"
proof (induction ds arbitrary: s)
  case Nil
  then have "length [s] = Suc (length ([] :: LocationLink list)) \<and> [s] ! 0 = s
             \<and> [s] ! length ([] :: LocationLink list) = s'"
    by simp
  then show ?case by (intro exI [of _ "[s]"]) simp
next
  case (Cons d ds)
  from Cons.prems obtain t where
    d: "forDefinition search ctx od d s = Some (Inr t)"
    and r: "forDefinitions search ctx od ds t = Some (Inr s')"
    by (auto split: option.splits sum.splits)
  from Cons.IH [OF r] obtain ts where
    l: "length ts = Suc (length ds)" and z: "ts ! 0 = t" and e: "ts ! length ds = s'"
    and st: "\<forall>i<length ds. forDefinition search ctx od (ds ! i) (ts ! i) = Some (Inr (ts ! Suc i))"
    by blast
  have "\<forall>i<length (d # ds).
          forDefinition search ctx od ((d # ds) ! i) ((s # ts) ! i) = Some (Inr ((s # ts) ! Suc i))"
  proof (intro allI impI)
    fix i
    assume i: "i < length (d # ds)"
    show "forDefinition search ctx od ((d # ds) ! i) ((s # ts) ! i) = Some (Inr ((s # ts) ! Suc i))"
    proof (cases i)
      case 0
      with d z show ?thesis by simp
    next
      case (Suc j)
      with i st show ?thesis by simp
    qed
  qed
  moreover have "length (s # ts) = Suc (length (d # ds))" using l by simp
  moreover have "(s # ts) ! 0 = s" by simp
  moreover have "(s # ts) ! length (d # ds) = s'" using e by simp
  ultimately show ?case by blast
qed

lemma forDefinitions_terminal:
  "\<forall>d\<in>set ds. linkedCodeMapOf ctx d = Inr None
   \<Longrightarrow> forDefinitions search ctx od ds s = Some (Inr (foldl (\<lambda>t d. pushTerminal od d t) s ds))"
proof (induction ds arbitrary: s)
  case Nil
  then show ?case by simp
next
  case (Cons d ds)
  from Cons.prems have "linkedCodeMapOf ctx d = Inr None" by simp
  then have "forDefinition search ctx od d s = Some (Inr (pushTerminal od d s))"
    unfolding pushTerminal_def by (intro forDefinition_terminal) simp_all
  moreover from Cons.prems have "\<forall>d\<in>set ds. linkedCodeMapOf ctx d = Inr None" by simp
  ultimately show ?case using Cons.IH [of "pushTerminal od d s"] by simp
qed

text \<open>
  C1. In an invocation of the search at a location that is not visited yet, the
  candidates of the analyzer are gone through in their order, each from the state the
  one before it left. A candidate is left out of the results exactly when its target has
  a linked code map with a mirror position, of the start of its target selection range,
  that is not visited when its turn comes: then the state after it is the state the
  mirror loop returns, with a mirror followed and nothing appended for the candidate
  itself. When the target has no linked code map, or every mirror position is visited
  already, the candidate is appended to the results. An invocation none of whose
  candidates has a linked code map returns, with all of them appended in their order.
\<close>

theorem candidate_omitted_iff_mirror_followed:
  "(uri doc, pointRange position) \<notin> recursiveChecker s
   \<and> definitions = (case f doc position (token (length (analyzerCalls s))) of
                      None \<Rightarrow> [] | Some ds \<Rightarrow> ds)
   \<and> s2 = s\<lparr> recursiveChecker := insert (uri doc, pointRange position) (recursiveChecker s),
              analyzerCalls := analyzerCalls s @ [(doc, position)] \<rparr>
   \<longrightarrow> (withLinkedCode (Suc n) ctx (Some f) token doc position originDefinition s = Some (Inr s')
        \<longrightarrow> (\<exists>ts. length ts = Suc (length definitions) \<and> ts ! 0 = s2
                  \<and> ts ! length definitions = s'
                  \<and> (\<forall>i<length definitions.
                        if unvisitedMirror ctx (definitions ! i) (ts ! i)
                        then \<exists>lm. linkedCodeMapOf ctx (definitions ! i) = Inr (Some lm)
                               \<and> forLinkedPos (withLinkedCode n ctx (Some f) token) lm
                                     (originOr originDefinition (definitions ! i))
                                     (getLinkedCodePositions lm
                                        (start (targetSelectionRange (definitions ! i))))
                                     False (markTarget (definitions ! i) (ts ! i))
                                   = Some (Inr (True, ts ! Suc i))
                        else ts ! Suc i = pushTerminal originDefinition (definitions ! i) (ts ! i))))
      \<and> ((\<forall>d\<in>set definitions. linkedCodeMapOf ctx d = Inr None)
         \<longrightarrow> withLinkedCode (Suc n) ctx (Some f) token doc position originDefinition s
               = Some (Inr (foldl (\<lambda>t d. pushTerminal originDefinition d t) s2 definitions)))"
proof (intro impI conjI)
  assume a: "(uri doc, pointRange position) \<notin> recursiveChecker s
   \<and> definitions = (case f doc position (token (length (analyzerCalls s))) of
                      None \<Rightarrow> [] | Some ds \<Rightarrow> ds)
   \<and> s2 = s\<lparr> recursiveChecker := insert (uri doc, pointRange position) (recursiveChecker s),
              analyzerCalls := analyzerCalls s @ [(doc, position)] \<rparr>"
    and r: "withLinkedCode (Suc n) ctx (Some f) token doc position originDefinition s
              = Some (Inr s')"
  from a have "withLinkedCode (Suc n) ctx (Some f) token doc position originDefinition s
                 = forDefinitions (withLinkedCode n ctx (Some f) token) ctx originDefinition
                     definitions s2"
    by (simp add: Let_def)
  with r have "forDefinitions (withLinkedCode n ctx (Some f) token) ctx originDefinition
                   definitions s2 = Some (Inr s')"
    by simp
  from forDefinitions_trace [OF this] obtain ts where
    l: "length ts = Suc (length definitions)" and z: "ts ! 0 = s2"
    and e: "ts ! length definitions = s'"
    and st: "\<forall>i<length definitions.
               forDefinition (withLinkedCode n ctx (Some f) token) ctx originDefinition
                 (definitions ! i) (ts ! i) = Some (Inr (ts ! Suc i))"
    by blast
  have "\<forall>i<length definitions.
          if unvisitedMirror ctx (definitions ! i) (ts ! i)
          then \<exists>lm. linkedCodeMapOf ctx (definitions ! i) = Inr (Some lm)
                 \<and> forLinkedPos (withLinkedCode n ctx (Some f) token) lm
                       (originOr originDefinition (definitions ! i))
                       (getLinkedCodePositions lm
                          (start (targetSelectionRange (definitions ! i))))
                       False (markTarget (definitions ! i) (ts ! i))
                     = Some (Inr (True, ts ! Suc i))
          else ts ! Suc i = pushTerminal originDefinition (definitions ! i) (ts ! i)"
  proof (intro allI impI)
    fix i
    assume "i < length definitions"
    with st have "forDefinition (withLinkedCode n ctx (Some f) token) ctx originDefinition
                 (definitions ! i) (ts ! i) = Some (Inr (ts ! Suc i))"
      by simp
    from forDefinition_cases [OF this]
    show "if unvisitedMirror ctx (definitions ! i) (ts ! i)
          then \<exists>lm. linkedCodeMapOf ctx (definitions ! i) = Inr (Some lm)
                 \<and> forLinkedPos (withLinkedCode n ctx (Some f) token) lm
                       (originOr originDefinition (definitions ! i))
                       (getLinkedCodePositions lm
                          (start (targetSelectionRange (definitions ! i))))
                       False (markTarget (definitions ! i) (ts ! i))
                     = Some (Inr (True, ts ! Suc i))
          else ts ! Suc i = pushTerminal originDefinition (definitions ! i) (ts ! i)"
      by (simp only: unvisitedMirror_iff pushTerminal_def)
  qed
  with l z e
  show "\<exists>ts. length ts = Suc (length definitions) \<and> ts ! 0 = s2
                  \<and> ts ! length definitions = s'
                  \<and> (\<forall>i<length definitions.
                        if unvisitedMirror ctx (definitions ! i) (ts ! i)
                        then \<exists>lm. linkedCodeMapOf ctx (definitions ! i) = Inr (Some lm)
                               \<and> forLinkedPos (withLinkedCode n ctx (Some f) token) lm
                                     (originOr originDefinition (definitions ! i))
                                     (getLinkedCodePositions lm
                                        (start (targetSelectionRange (definitions ! i))))
                                     False (markTarget (definitions ! i) (ts ! i))
                                   = Some (Inr (True, ts ! Suc i))
                        else ts ! Suc i = pushTerminal originDefinition (definitions ! i) (ts ! i))"
    by blast
next
  assume a: "(uri doc, pointRange position) \<notin> recursiveChecker s
   \<and> definitions = (case f doc position (token (length (analyzerCalls s))) of
                      None \<Rightarrow> [] | Some ds \<Rightarrow> ds)
   \<and> s2 = s\<lparr> recursiveChecker := insert (uri doc, pointRange position) (recursiveChecker s),
              analyzerCalls := analyzerCalls s @ [(doc, position)] \<rparr>"
    and t: "\<forall>d\<in>set definitions. linkedCodeMapOf ctx d = Inr None"
  from a have "withLinkedCode (Suc n) ctx (Some f) token doc position originDefinition s
                 = forDefinitions (withLinkedCode n ctx (Some f) token) ctx originDefinition
                     definitions s2"
    by (simp add: Let_def)
  with forDefinitions_terminal [OF t]
  show "withLinkedCode (Suc n) ctx (Some f) token doc position originDefinition s
               = Some (Inr (foldl (\<lambda>t d. pushTerminal originDefinition d t) s2 definitions))"
    by simp
qed

section \<open>The search: the origin of a chain of mirrors\<close>

lemma carriesD:
  "carries search \<Longrightarrow> search doc pos (Some origin) t = Some (Inr t')
   \<Longrightarrow> \<exists>ext. result t' = result t @ ext
             \<and> (\<forall>l\<in>set ext. originSelectionRange l = originSelectionRange origin)"
  by (simp add: carries_def)

lemma forLinkedPos_origin:
  assumes c: "carries search"
  shows "forLinkedPos search lm og ps f s = Some (Inr (f', s'))
         \<Longrightarrow> \<exists>ext. result s' = result s @ ext
                   \<and> (\<forall>l\<in>set ext. originSelectionRange l = originSelectionRange og)"
proof (induction ps arbitrary: f s)
  case Nil
  then show ?case by simp
next
  case (Cons p ps)
  show ?case
  proof (cases "(uri (document lm), pointRange p) \<in> recursiveChecker s")
    case True
    with Cons show ?thesis by simp
  next
    case False
    with Cons.prems obtain t where
      t: "search (document lm) p (Some og) s = Some (Inr t)"
      and r: "forLinkedPos search lm og ps True t = Some (Inr (f', s'))"
      by (auto split: option.splits sum.splits)
    from carriesD [OF c t] obtain e1 where
      e1: "result t = result s @ e1" "\<forall>l\<in>set e1. originSelectionRange l = originSelectionRange og"
      by blast
    from Cons.IH [OF r] obtain e2 where
      e2: "result s' = result t @ e2" "\<forall>l\<in>set e2. originSelectionRange l = originSelectionRange og"
      by blast
    from e1 e2 have "result s' = result s @ (e1 @ e2)
        \<and> (\<forall>l\<in>set (e1 @ e2). originSelectionRange l = originSelectionRange og)"
      by auto
    then show ?thesis by blast
  qed
qed

lemma emitted_origin:
  "originSelectionRange (emitted od d) = originSelectionRange (originOr od d)"
  by (cases od) (simp_all add: emitted_def originOr_def)

lemma forDefinition_origin:
  assumes c: "carries search"
    and r: "forDefinition search ctx od d s = Some (Inr s')"
  shows "\<exists>ext. result s' = result s @ ext
           \<and> (\<forall>l\<in>set ext. originSelectionRange l = originSelectionRange (originOr od d))"
proof (cases "\<exists>lm. linkedCodeMapOf ctx d = Inr (Some lm)
               \<and> (\<exists>p\<in>set (getLinkedCodePositions lm (start (targetSelectionRange d))).
                     (uri (document lm), pointRange p) \<notin> recursiveChecker (markTarget d s))")
  case True
  with forDefinition_cases [OF r] obtain lm where
    "forLinkedPos search lm (originOr od d)
       (getLinkedCodePositions lm (start (targetSelectionRange d))) False (markTarget d s)
     = Some (Inr (True, s'))"
    by auto
  from forLinkedPos_origin [OF c this] show ?thesis by (simp add: markTarget_result)
next
  case False
  with forDefinition_cases [OF r]
  have "s' = (markTarget d s)\<lparr> result := result s @ [emitted od d] \<rparr>" by simp
  then have "result s' = result s @ [emitted od d]
      \<and> (\<forall>l\<in>set [emitted od d]. originSelectionRange l = originSelectionRange (originOr od d))"
    by (simp add: emitted_origin)
  then show ?thesis by blast
qed

lemma forDefinitions_origin:
  assumes c: "carries search"
  shows "forDefinitions search ctx (Some origin) ds s = Some (Inr s')
         \<Longrightarrow> \<exists>ext. result s' = result s @ ext
                   \<and> (\<forall>l\<in>set ext. originSelectionRange l = originSelectionRange origin)"
proof (induction ds arbitrary: s)
  case Nil
  then show ?case by simp
next
  case (Cons d ds)
  then obtain t where t: "forDefinition search ctx (Some origin) d s = Some (Inr t)"
    and r: "forDefinitions search ctx (Some origin) ds t = Some (Inr s')"
    by (auto split: option.splits sum.splits)
  from forDefinition_origin [OF c t] obtain e1 where
    e1: "result t = result s @ e1" "\<forall>l\<in>set e1. originSelectionRange l = originSelectionRange origin"
    by (auto simp: originOr_def)
  from Cons.IH [OF r] obtain e2 where
    e2: "result s' = result t @ e2" "\<forall>l\<in>set e2. originSelectionRange l = originSelectionRange origin"
    by blast
  from e1 e2 have "result s' = result s @ (e1 @ e2)
      \<and> (\<forall>l\<in>set (e1 @ e2). originSelectionRange l = originSelectionRange origin)"
    by auto
  then show ?case by blast
qed

lemma withLinkedCode_carries: "carries (withLinkedCode n ctx api token)"
proof (induction n)
  case 0
  show ?case by (simp add: carries_def)
next
  case (Suc n)
  show ?case
    unfolding carries_def
  proof (intro allI impI)
    fix doc pos origin s s'
    assume p: "withLinkedCode (Suc n) ctx api token doc pos (Some origin) s = Some (Inr s')"
    show "\<exists>ext. result s' = result s @ ext
            \<and> (\<forall>l\<in>set ext. originSelectionRange l = originSelectionRange origin)"
    proof (cases "api = None \<or> (uri doc, pointRange pos) \<in> recursiveChecker s")
      case True
      with p have "s' = s" by (auto split: option.splits)
      then show ?thesis by simp
    next
      case False
      define s2 where "s2 = s\<lparr> recursiveChecker := insert (uri doc, pointRange pos) (recursiveChecker s),
                              analyzerCalls := analyzerCalls s @ [(doc, pos)] \<rparr>"
      from False p obtain ds where
        "forDefinitions (withLinkedCode n ctx api token) ctx (Some origin) ds s2 = Some (Inr s')"
        by (auto simp: Let_def s2_def)
      from forDefinitions_origin [OF Suc.IH this] show ?thesis by (simp add: s2_def)
    qed
  qed
qed

text \<open>
  C3. Every link that a mirror-following call adds to the results has the origin
  selection range of the origin link the call was given; and every link added while the
  search works on a candidate of the first call, the one without an origin, has the
  origin selection range of that candidate, the first of the chain.
\<close>

theorem origin_propagation:
  "(withLinkedCode n ctx api token doc pos (Some origin) s = Some (Inr s') \<longrightarrow>
      (\<exists>ext. result s' = result s @ ext
             \<and> (\<forall>l\<in>set ext. originSelectionRange l = originSelectionRange origin)))
   \<and> (forDefinition (withLinkedCode n ctx api token) ctx None d s = Some (Inr s'') \<longrightarrow>
      (\<exists>ext. result s'' = result s @ ext
             \<and> (\<forall>l\<in>set ext. originSelectionRange l = originSelectionRange d)))"
proof (intro conjI impI)
  assume "withLinkedCode n ctx api token doc pos (Some origin) s = Some (Inr s')"
  then show "\<exists>ext. result s' = result s @ ext
             \<and> (\<forall>l\<in>set ext. originSelectionRange l = originSelectionRange origin)"
    by (rule carriesD [OF withLinkedCode_carries])
next
  assume "forDefinition (withLinkedCode n ctx api token) ctx None d s = Some (Inr s'')"
  from forDefinition_origin [OF withLinkedCode_carries this]
  show "\<exists>ext. result s'' = result s @ ext
             \<and> (\<forall>l\<in>set ext. originSelectionRange l = originSelectionRange d)"
    by (simp add: originOr_def)
qed

section \<open>The worked example, run\<close>

lemma example_run:
  "withLinkedCode 3 exampleContext (Some exampleAnalyzer) notCancelled genTDocument (posn 20 10)
     None emptySearch = Some (Inr exampleFinal)"
  by code_simp

lemma example_step_C1:
  "forDefinition (withLinkedCode 2 exampleContext (Some exampleAnalyzer) notCancelled)
     exampleContext None candidateC1 exampleSeeded = Some (Inr exampleFinal)"
  by code_simp

lemma example_recursive_call:
  "withLinkedCode 2 exampleContext (Some exampleAnalyzer) notCancelled genTDocument (posn 45 1)
     (Some candidateC1) (markTarget candidateC1 exampleSeeded) = Some (Inr exampleFinal)"
  by code_simp

lemma example_genT_document:
  "fst (documents_get exampleToString emptyDocuments
          (encodeEmbeddedDocumentUri exampleToString sourceT (vc_id genT))
          (vc_languageId genT) (vc_snapshot genT)) = genTDocument"
  by code_simp

lemma example_linked_genT:
  "targetUri d = genTUri \<Longrightarrow> linkedCodeMapOf exampleContext d = Inr (Some exampleLinked)"
  using example_genT_document
  by (simp add: linkedCodeMapOf_def example_target_genT getLinkedCodeMap_def Let_def
      exampleLinked_def)
    (simp add: exampleContext_def scriptT_def)

lemma example_linked_sourceU:
  "targetUri d = ''file:///U'' \<Longrightarrow> linkedCodeMapOf exampleContext d = Inr None"
  by (simp add: linkedCodeMapOf_def example_target_sourceU)

lemma two_candidates_run:
  "withLinkedCode 3 exampleContext (Some twoCandidates) notCancelled genTDocument (posn 20 10)
     None emptySearch = Some (Inr twoCandidatesFinal)"
  by code_simp

lemma two_candidates_mirror_loop:
  "forLinkedPos (withLinkedCode 2 exampleContext (Some twoCandidates) notCancelled) exampleLinked
     (originOr None candidateC1)
     (getLinkedCodePositions exampleLinked (start (targetSelectionRange candidateC1))) False
     (markTarget candidateC1 exampleSeeded)
   = Some (Inr (True, exampleFinal))"
  by code_simp

lemma plain_file_run:
  "foldl (\<lambda>t d. pushTerminal None d t)
     (emptySearch\<lparr> recursiveChecker :=
                     insert (uri sourceUDocument, pointRange (posn 3 9)) (recursiveChecker emptySearch),
                   analyzerCalls := analyzerCalls emptySearch @ [(sourceUDocument, posn 3 9)] \<rparr>)
     [candidateD]
   = \<lparr> recursiveChecker = {(''file:///U'', pointRange (posn 3 9)),
                           (''file:///U'', pointRange (posn 3 0))},
       result = [candidateD],
       analyzerCalls = [(sourceUDocument, posn 3 9)] \<rparr>"
  by code_simp

theorem candidate_omitted_iff_mirror_followed_witness:
  "withLinkedCode 3 exampleContext (Some twoCandidates) notCancelled genTDocument (posn 20 10)
      None emptySearch = Some (Inr twoCandidatesFinal)
   \<and> twoCandidates genTDocument (posn 20 10) False = Some [candidateC1, candidateD]
   \<and> unvisitedMirror exampleContext candidateC1 exampleSeeded
   \<and> forLinkedPos (withLinkedCode 2 exampleContext (Some twoCandidates) notCancelled) exampleLinked
        (originOr None candidateC1)
        (getLinkedCodePositions exampleLinked (start (targetSelectionRange candidateC1))) False
        (markTarget candidateC1 exampleSeeded)
      = Some (Inr (True, exampleFinal))
   \<and> \<not> unvisitedMirror exampleContext candidateD exampleFinal
   \<and> twoCandidatesFinal = pushTerminal None candidateD exampleFinal
   \<and> result twoCandidatesFinal
       = [candidateC2\<lparr> originSelectionRange := originSelectionRange candidateC1 \<rparr>, candidateD]
   \<and> candidateC1 \<notin> set (result twoCandidatesFinal)
   \<and> withLinkedCode 1 exampleContext (Some exampleAnalyzer) notCancelled sourceUDocument
        (posn 3 9) None emptySearch
      = Some (Inr \<lparr> recursiveChecker = {(''file:///U'', pointRange (posn 3 9)),
                                         (''file:///U'', pointRange (posn 3 0))},
                     result = [candidateD],
                     analyzerCalls = [(sourceUDocument, posn 3 9)] \<rparr>)"
proof -
  let ?w = "withLinkedCode 2 exampleContext (Some twoCandidates) notCancelled"
  have ds: "twoCandidates genTDocument (posn 20 10) False = Some [candidateC1, candidateD]"
    by code_simp
  have u: "(uri genTDocument, pointRange (posn 20 10)) \<notin> recursiveChecker emptySearch"
    by (simp add: emptySearch_def)
  have d: "[candidateC1, candidateD]
             = (case twoCandidates genTDocument (posn 20 10)
                       (notCancelled (length (analyzerCalls emptySearch))) of
                  None \<Rightarrow> [] | Some ds \<Rightarrow> ds)"
    by code_simp
  have s2: "exampleSeeded
              = emptySearch\<lparr> recursiveChecker :=
                    insert (uri genTDocument, pointRange (posn 20 10)) (recursiveChecker emptySearch),
                  analyzerCalls := analyzerCalls emptySearch @ [(genTDocument, posn 20 10)] \<rparr>"
    by (simp add: exampleSeeded_def emptySearch_def genTDocument_def)
  have h: "(uri genTDocument, pointRange (posn 20 10)) \<notin> recursiveChecker emptySearch
     \<and> [candidateC1, candidateD]
         = (case twoCandidates genTDocument (posn 20 10)
                   (notCancelled (length (analyzerCalls emptySearch))) of
              None \<Rightarrow> [] | Some ds \<Rightarrow> ds)
     \<and> exampleSeeded
         = emptySearch\<lparr> recursiveChecker :=
               insert (uri genTDocument, pointRange (posn 20 10)) (recursiveChecker emptySearch),
             analyzerCalls := analyzerCalls emptySearch @ [(genTDocument, posn 20 10)] \<rparr>"
    using u d s2 by (intro conjI)
  note c = candidate_omitted_iff_mirror_followed [of genTDocument "posn 20 10" emptySearch
      "[candidateC1, candidateD]" twoCandidates notCancelled exampleSeeded 2 exampleContext None
      twoCandidatesFinal, THEN mp, OF h, THEN conjunct1, THEN mp]
  have run: "withLinkedCode (Suc 2) exampleContext (Some twoCandidates) notCancelled genTDocument
               (posn 20 10) None emptySearch = Some (Inr twoCandidatesFinal)"
    using two_candidates_run by (simp only: numeral_3_eq_3 numeral_2_eq_2)
  from c [OF run] obtain ts where
    z: "ts ! 0 = exampleSeeded" and e: "ts ! length [candidateC1, candidateD] = twoCandidatesFinal"
    and st: "\<forall>i<length [candidateC1, candidateD].
                if unvisitedMirror exampleContext ([candidateC1, candidateD] ! i) (ts ! i)
                then \<exists>lm. linkedCodeMapOf exampleContext ([candidateC1, candidateD] ! i) = Inr (Some lm)
                       \<and> forLinkedPos ?w lm (originOr None ([candidateC1, candidateD] ! i))
                             (getLinkedCodePositions lm
                                (start (targetSelectionRange ([candidateC1, candidateD] ! i))))
                             False (markTarget ([candidateC1, candidateD] ! i) (ts ! i))
                           = Some (Inr (True, ts ! Suc i))
                else ts ! Suc i = pushTerminal None ([candidateC1, candidateD] ! i) (ts ! i)"
    by blast
  have l1: "linkedCodeMapOf exampleContext candidateC1 = Inr (Some exampleLinked)"
    by (rule example_linked_genT) (simp add: candidateC1_def)
  have l2: "linkedCodeMapOf exampleContext candidateD = Inr None"
    by (rule example_linked_sourceU) (simp add: candidateD_def)
  have v: "\<exists>p\<in>set (getLinkedCodePositions exampleLinked (start (targetSelectionRange candidateC1))).
             (uri (document exampleLinked), pointRange p)
               \<notin> recursiveChecker (markTarget candidateC1 exampleSeeded)"
    by code_simp
  have m1: "unvisitedMirror exampleContext candidateC1 exampleSeeded"
    using l1 v by (simp add: unvisitedMirror_def)
  have m2: "\<not> unvisitedMirror exampleContext candidateD exampleFinal"
    using l2 by (simp add: unvisitedMirror_def)
  from st have "if unvisitedMirror exampleContext candidateC1 (ts ! 0)
                then \<exists>lm. linkedCodeMapOf exampleContext candidateC1 = Inr (Some lm)
                       \<and> forLinkedPos ?w lm (originOr None candidateC1)
                             (getLinkedCodePositions lm (start (targetSelectionRange candidateC1)))
                             False (markTarget candidateC1 (ts ! 0))
                           = Some (Inr (True, ts ! Suc 0))
                else ts ! Suc 0 = pushTerminal None candidateC1 (ts ! 0)"
    by (auto dest: spec [of _ 0])
  with z m1 l1 have f: "forLinkedPos ?w exampleLinked (originOr None candidateC1)
                       (getLinkedCodePositions exampleLinked (start (targetSelectionRange candidateC1)))
                       False (markTarget candidateC1 exampleSeeded)
                     = Some (Inr (True, ts ! Suc 0))"
    by simp
  with two_candidates_mirror_loop have t1: "ts ! Suc 0 = exampleFinal" by simp
  from st have "if unvisitedMirror exampleContext candidateD (ts ! Suc 0)
                then \<exists>lm. linkedCodeMapOf exampleContext candidateD = Inr (Some lm)
                       \<and> forLinkedPos ?w lm (originOr None candidateD)
                             (getLinkedCodePositions lm (start (targetSelectionRange candidateD)))
                             False (markTarget candidateD (ts ! Suc 0))
                           = Some (Inr (True, ts ! Suc (Suc 0)))
                else ts ! Suc (Suc 0) = pushTerminal None candidateD (ts ! Suc 0)"
    by (auto dest: spec [of _ "Suc 0"])
  with t1 m2 e have p: "twoCandidatesFinal = pushTerminal None candidateD exampleFinal"
    by simp
  have r: "result twoCandidatesFinal
       = [candidateC2\<lparr> originSelectionRange := originSelectionRange candidateC1 \<rparr>, candidateD]"
    by (simp add: twoCandidatesFinal_def)
  have n: "candidateC1 \<notin> set (result twoCandidatesFinal)" by code_simp
  have uD: "(uri sourceUDocument, pointRange (posn 3 9)) \<notin> recursiveChecker emptySearch"
    by (simp add: emptySearch_def)
  have dD: "[candidateD]
             = (case exampleAnalyzer sourceUDocument (posn 3 9)
                       (notCancelled (length (analyzerCalls emptySearch))) of
                  None \<Rightarrow> [] | Some ds \<Rightarrow> ds)"
    by code_simp
  let ?sD = "emptySearch\<lparr> recursiveChecker :=
                     insert (uri sourceUDocument, pointRange (posn 3 9)) (recursiveChecker emptySearch),
                   analyzerCalls := analyzerCalls emptySearch @ [(sourceUDocument, posn 3 9)] \<rparr>"
  have hD: "(uri sourceUDocument, pointRange (posn 3 9)) \<notin> recursiveChecker emptySearch
     \<and> [candidateD]
         = (case exampleAnalyzer sourceUDocument (posn 3 9)
                   (notCancelled (length (analyzerCalls emptySearch))) of
              None \<Rightarrow> [] | Some ds \<Rightarrow> ds)
     \<and> ?sD = ?sD"
    using uD dD by (intro conjI) simp_all
  have tD: "\<forall>d\<in>set [candidateD]. linkedCodeMapOf exampleContext d = Inr None"
    using l2 by simp
  note candidate_omitted_iff_mirror_followed [of sourceUDocument "posn 3 9" emptySearch
      "[candidateD]" exampleAnalyzer notCancelled ?sD 0 exampleContext None,
      THEN mp, OF hD, THEN conjunct2, THEN mp, OF tD]
  then have q: "withLinkedCode 1 exampleContext (Some exampleAnalyzer) notCancelled sourceUDocument
        (posn 3 9) None emptySearch
      = Some (Inr \<lparr> recursiveChecker = {(''file:///U'', pointRange (posn 3 9)),
                                         (''file:///U'', pointRange (posn 3 0))},
                     result = [candidateD],
                     analyzerCalls = [(sourceUDocument, posn 3 9)] \<rparr>)"
    by (simp only: plain_file_run One_nat_def)
  from two_candidates_run ds m1 two_candidates_mirror_loop m2 p r n q show ?thesis by blast
qed

theorem origin_propagation_witness:
  "withLinkedCode 2 exampleContext (Some exampleAnalyzer) notCancelled genTDocument (posn 45 1)
      (Some candidateC1) (markTarget candidateC1 exampleSeeded) = Some (Inr exampleFinal)
   \<and> forDefinition (withLinkedCode 2 exampleContext (Some exampleAnalyzer) notCancelled)
        exampleContext None candidateC1 exampleSeeded = Some (Inr exampleFinal)
   \<and> result exampleFinal = [candidateC2\<lparr> originSelectionRange := originSelectionRange candidateC1 \<rparr>]
   \<and> originSelectionRange (hd (result exampleFinal)) = originSelectionRange candidateC1
   \<and> originSelectionRange candidateC2 \<noteq> originSelectionRange candidateC1
   \<and> transformResult exampleContext provideDefinition sourceT (posn 5 3)
        (Some (getSourceMap exampleContext genT)) (result exampleFinal)
      = Inr [\<lparr> originSelectionRange = Some (rng 5 1 5 7), targetUri = ''file:///T'',
                targetRange = rng 1 8 1 14, targetSelectionRange = rng 1 8 1 14 \<rparr>]"
proof -
  have r: "result exampleFinal = [candidateC2\<lparr> originSelectionRange := originSelectionRange candidateC1 \<rparr>]"
    by (simp add: exampleFinal_def)
  have e: "result (markTarget candidateC1 exampleSeeded) = []" "result exampleSeeded = []"
    by (simp_all add: markTarget_def exampleSeeded_def)
  from origin_propagation [of 2 exampleContext "Some exampleAnalyzer" notCancelled genTDocument
      "posn 45 1" candidateC1 "markTarget candidateC1 exampleSeeded" exampleFinal]
    example_recursive_call
  have "\<forall>l\<in>set (result exampleFinal). originSelectionRange l = originSelectionRange candidateC1"
    using e by auto
  moreover from origin_propagation [of 2 exampleContext "Some exampleAnalyzer" notCancelled _ _ _
      exampleSeeded _ candidateC1 exampleFinal]
    example_step_C1
  have "\<forall>l\<in>set (result exampleFinal). originSelectionRange l = originSelectionRange candidateC1"
    using e by auto
  ultimately have "\<forall>l\<in>set (result exampleFinal). originSelectionRange l = originSelectionRange candidateC1"
    by blast
  with r have h: "originSelectionRange (hd (result exampleFinal)) = originSelectionRange candidateC1"
    by simp
  have d: "originSelectionRange candidateC2 \<noteq> originSelectionRange candidateC1" by code_simp
  have t: "transformResult exampleContext provideDefinition sourceT (posn 5 3)
        (Some (getSourceMap exampleContext genT)) (result exampleFinal)
      = Inr [\<lparr> originSelectionRange = Some (rng 5 1 5 7), targetUri = ''file:///T'',
                targetRange = rng 1 8 1 14, targetSelectionRange = rng 1 8 1 14 \<rparr>]"
    by code_simp
  from example_recursive_call example_step_C1 r h d t show ?thesis by blast
qed

theorem search_terminates_witness:
  "finite (mirrorKeys exampleContext)
   \<and> mirrorsT (posn 2 5) = [posn 45 1] \<and> mirrorsT (posn 45 1) = [posn 2 5]
   \<and> (\<exists>r. \<forall>k. withLinkedCode (Suc (card (mirrorKeys exampleContext - recursiveChecker emptySearch)) + k)
                  exampleContext (Some exampleAnalyzer) notCancelled genTDocument (posn 20 10)
                  None emptySearch = Some r)
   \<and> withLinkedCode 3 exampleContext (Some exampleAnalyzer) notCancelled genTDocument (posn 20 10)
        None emptySearch = Some (Inr exampleFinal)
   \<and> (uri genTDocument, pointRange (posn 20 10))
        \<in> recursiveChecker exampleFinal - recursiveChecker emptySearch
   \<and> recursiveChecker exampleFinal
        \<subseteq> insert (uri genTDocument, pointRange (posn 20 10))
             (recursiveChecker emptySearch
              \<union> (mirrorKeys exampleContext \<union> candidateKeys (Some exampleAnalyzer)))"
proof -
  note t = search_terminates [OF example_mirrorKeys_finite, of emptySearch "Some exampleAnalyzer"
      notCancelled genTDocument "posn 20 10" None]
  have c: "mirrorsT (posn 2 5) = [posn 45 1] \<and> mirrorsT (posn 45 1) = [posn 2 5]"
    by (simp add: mirrorsT_def posn_def)
  have n: "exampleFinal \<noteq> emptySearch" by (simp add: exampleFinal_def emptySearch_def)
  from t example_run n
  have "(uri genTDocument, pointRange (posn 20 10))
          \<in> recursiveChecker exampleFinal - recursiveChecker emptySearch"
    by blast
  moreover from t example_run
  have "recursiveChecker exampleFinal
        \<subseteq> insert (uri genTDocument, pointRange (posn 20 10))
             (recursiveChecker emptySearch
              \<union> (mirrorKeys exampleContext \<union> candidateKeys (Some exampleAnalyzer)))"
    by blast
  ultimately show ?thesis
    using t c example_mirrorKeys_finite example_run by blast
qed

section \<open>The search: what is marked as visited\<close>

text \<open>
  C5. The search marks the start of the target range of a candidate, where the spec has
  the start of its target selection range, and then enumerates the mirror positions of
  the start of the target selection range. Positions \<open>(2,5)\<close> and \<open>(45,1)\<close> mirror each
  other. For a candidate at \<open>(2,5)\<close> whose target range starts there the search calls
  the analyzer twice and returns the mirror's candidate. For the same candidate with a
  target range that starts at \<open>(2,0)\<close>, before the name, position \<open>(2,5)\<close> is never
  marked: the search comes back to it from the mirror, calls the analyzer a third time
  and returns the candidate itself in place of the mirror's.
\<close>

theorem mirror_cycle_reentered:
  "candidateA = candidateC1\<lparr> targetRange := rng 2 0 2 20 \<rparr>
   \<and> start (targetSelectionRange candidateA) = posn 2 5
   \<and> start (targetRange candidateA) = posn 2 0
   \<and> worker 4 exampleContext (Some cycleAnalyzer) notCancelled genTDocument (posn 20 10)
       = Some (Inr (Some [candidateA],
                    [(genTDocument, posn 20 10), (genTDocument, posn 45 1),
                     (genTDocument, posn 2 5)]))
   \<and> (targetUri candidateA, pointRange (start (targetSelectionRange candidateA)))
       \<notin> recursiveChecker (markTarget candidateA exampleSeeded)
   \<and> worker 3 exampleContext (Some exampleAnalyzer) notCancelled genTDocument (posn 20 10)
       = Some (Inr (Some [candidateC2\<lparr> originSelectionRange := originSelectionRange candidateC1 \<rparr>],
                    [(genTDocument, posn 20 10), (genTDocument, posn 45 1)]))
   \<and> (targetUri candidateC1, pointRange (start (targetSelectionRange candidateC1)))
       \<in> recursiveChecker (markTarget candidateC1 exampleSeeded)"
  by code_simp

section \<open>Cancellation\<close>

lemma withLinkedCode_token:
  assumes "\<forall>doc p c. f doc p c = f doc p False"
  shows "withLinkedCode n ctx (Some f) token = withLinkedCode n ctx (Some f) token'"
proof (induction n)
  case 0
  show ?case by simp
next
  case (Suc n)
  have e: "f doc p (token k) = f doc p (token' k)" for doc p k
    using assms by metis
  show ?case
    by (simp add: Suc.IH Let_def e cong: if_cong)
qed

text \<open>
  C9, as amended. The token is polled once, at the start of the callback for a seed:
  when it is signalled there, the callback returns \<open>undefined\<close> and no analyzer call is
  made, whatever the depth allowed. The search itself does not read the token, it hands
  it to the analyzer: with an analyzer that pays no attention to the token, the search
  is the same function for every token.
\<close>

theorem cancellation_polled_once:
  "(token 0 \<longrightarrow> worker n ctx api token doc pos = Some (Inr (None, [])))
   \<and> ((\<forall>doc p c. f doc p c = f doc p False)
      \<longrightarrow> withLinkedCode n ctx (Some f) token = withLinkedCode n ctx (Some f) token')"
  using withLinkedCode_token [of f n ctx token token'] by (simp add: worker_def)

text \<open>
  C9 as stated fails: with a token that is signalled once the first analyzer call has
  returned, the mirror-following call at \<open>(45,1)\<close> still asks the analyzer, and its
  candidate is in the answer.
\<close>

theorem recursive_call_not_cancelled:
  "cancelledAfterFirstCall 1
   \<and> worker 3 exampleContext (Some exampleAnalyzer) cancelledAfterFirstCall genTDocument (posn 20 10)
     = Some (Inr (Some [candidateC2\<lparr> originSelectionRange := originSelectionRange candidateC1 \<rparr>],
                  [(genTDocument, posn 20 10), (genTDocument, posn 45 1)]))"
  by code_simp

theorem cancellation_polled_once_witness:
  "cancelledAfterFirstCall (Suc 0)
   \<and> worker 3 exampleContext (Some exampleAnalyzer) (\<lambda>k. cancelledAfterFirstCall (Suc k))
        genTDocument (posn 20 10) = Some (Inr (None, []))
   \<and> withLinkedCode 3 exampleContext (Some exampleAnalyzer) cancelledAfterFirstCall
      = withLinkedCode 3 exampleContext (Some exampleAnalyzer) notCancelled"
proof -
  have c: "cancelledAfterFirstCall (Suc 0)" by (simp add: cancelledAfterFirstCall_def)
  have i: "\<forall>doc p c. exampleAnalyzer doc p c = exampleAnalyzer doc p False"
    by (simp add: exampleAnalyzer_def)
  from cancellation_polled_once [of "\<lambda>k. cancelledAfterFirstCall (Suc k)" 3 exampleContext
      "Some exampleAnalyzer" genTDocument "posn 20 10"] c
  have a: "worker 3 exampleContext (Some exampleAnalyzer) (\<lambda>k. cancelledAfterFirstCall (Suc k))
        genTDocument (posn 20 10) = Some (Inr (None, []))"
    by simp
  from cancellation_polled_once [of cancelledAfterFirstCall 3 exampleContext _ _ _
      exampleAnalyzer notCancelled] i
  have b: "withLinkedCode 3 exampleContext (Some exampleAnalyzer) cancelledAfterFirstCall
      = withLinkedCode 3 exampleContext (Some exampleAnalyzer) notCancelled"
    by blast
  from c a b show ?thesis by blast
qed

section \<open>The document cache\<close>

lemma documents_get_stored:
  assumes "documents_get toStr st u l snap = (d, st')"
  shows "storedDoc st' key = (if key = (snap_id snap, toStr u) then Some d else storedDoc st key)"
proof (cases "snapshot2Doc st (snap_id snap)")
  case None
  with assms show ?thesis
    by (cases key) (auto simp: documents_get_def storedDoc_def Let_def)
next
  case (Some m)
  show ?thesis
  proof (cases "m (toStr u)")
    case None
    with Some assms show ?thesis
      by (cases key) (auto simp: documents_get_def storedDoc_def Let_def)
  next
    case (Some d0)
    with \<open>snapshot2Doc st (snap_id snap) = Some m\<close> assms show ?thesis
      by (cases key) (auto simp: documents_get_def storedDoc_def Let_def)
  qed
qed

lemma documents_get_hit:
  assumes "documents_get toStr st u l snap = (d, st')"
    and "storedDoc st (snap_id snap, toStr u) = Some d0"
  shows "d = d0 \<and> nextVersion st' k = nextVersion st k"
  using assms
  by (auto simp: documents_get_def storedDoc_def nextVersion_def Let_def split: option.splits)

lemma documents_get_miss:
  assumes "documents_get toStr st u l snap = (d, st')"
    and "storedDoc st (snap_id snap, toStr u) = None"
  shows "version d = nextVersion st (toStr u)
         \<and> nextVersion st' k = (if k = toStr u then nextVersion st k + 1 else nextVersion st k)"
proof (cases "snapshot2Doc st (snap_id snap)")
  case None
  with assms show ?thesis
    by (auto simp: documents_get_def storedDoc_def nextVersion_def Let_def)
next
  case (Some m)
  with assms show ?thesis
    by (auto simp: documents_get_def storedDoc_def nextVersion_def Let_def)
qed

lemma cache_ok_documents_get:
  assumes ok: "cache_ok st" and g: "documents_get toStr st u l snap = (d, st')"
  shows "cache_ok st'"
proof (cases "storedDoc st (snap_id snap, toStr u)")
  case (Some d0)
  note h = documents_get_hit [OF g Some]
  have s: "storedDoc st' key = storedDoc st key" for key
    using documents_get_stored [OF g, of key] Some h by auto
  from ok show ?thesis
    unfolding cache_ok_def by (simp add: s h)
next
  case None
  note m = documents_get_miss [OF g None]
  note s = documents_get_stored [OF g]
  show ?thesis
    unfolding cache_ok_def
  proof (intro conjI allI impI)
    fix sid k d1
    assume a: "storedDoc st' (sid, k) = Some d1"
    show "version d1 < nextVersion st' k"
    proof (cases "(sid, k) = (snap_id snap, toStr u)")
      case True
      with a s [of "(sid, k)"] have "d1 = d" by (auto split: if_splits)
      with m True show ?thesis by simp
    next
      case False
      with a s [of "(sid, k)"] have "storedDoc st (sid, k) = Some d1"
        by (auto split: if_splits)
      with ok have "version d1 < nextVersion st k" by (auto simp: cache_ok_def)
      with m [of k] show ?thesis by (simp split: if_splits)
    qed
  next
    fix sid sid' k d1 d2
    assume a: "storedDoc st' (sid, k) = Some d1 \<and> storedDoc st' (sid', k) = Some d2 \<and> sid \<noteq> sid'"
    have old: "version x < nextVersion st k" if "storedDoc st (y, k) = Some x" for x y
      using ok that by (auto simp: cache_ok_def)
    show "version d1 \<noteq> version d2"
    proof (cases "(sid, k) = (snap_id snap, toStr u)")
      case True
      with a s [of "(sid, k)"] s [of "(sid', k)"]
      have d1: "d1 = d" and "storedDoc st (sid', k) = Some d2" by (auto split: if_splits)
      from old [OF this(2)] m d1 True show ?thesis by simp
    next
      case False
      with a s [of "(sid, k)"] have o1: "storedDoc st (sid, k) = Some d1"
        by (auto split: if_splits)
      show ?thesis
      proof (cases "(sid', k) = (snap_id snap, toStr u)")
        case True
        with a s [of "(sid', k)"] have "d2 = d" by (auto split: if_splits)
        with old [OF o1] m True show ?thesis by simp
      next
        case False
        with a s [of "(sid', k)"] have "storedDoc st (sid', k) = Some d2"
          by (auto split: if_splits)
        with o1 a ok show ?thesis unfolding cache_ok_def by blast
      qed
    qed
  qed
qed

lemma nextVersion_mono:
  assumes "documents_get toStr st u l snap = (d, st')"
  shows "nextVersion st k \<le> nextVersion st' k"
proof (cases "storedDoc st (snap_id snap, toStr u)")
  case None
  from documents_get_miss [OF assms None, of k] show ?thesis by simp
next
  case (Some d0)
  from documents_get_hit [OF assms Some, of k] show ?thesis by simp
qed

lemma getDocuments_length: "length (getDocuments toStr st calls) = length calls"
  by (induction calls arbitrary: st) (auto split: prod.splits)

lemma getDocuments_nth:
  "cache_ok st \<Longrightarrow> j < length calls
   \<Longrightarrow> storedDoc st (callKey toStr (calls ! j)) = Some (getDocuments toStr st calls ! j)
       \<or> (storedDoc st (callKey toStr (calls ! j)) = None
          \<and> nextVersion st (snd (callKey toStr (calls ! j))) \<le> version (getDocuments toStr st calls ! j))"
proof (induction calls arbitrary: st j)
  case Nil
  then show ?case by simp
next
  case (Cons c calls)
  obtain u l snap where c: "c = (u, l, snap)" by (cases c)
  obtain d st' where g: "documents_get toStr st u l snap = (d, st')"
    by (cases "documents_get toStr st u l snap")
  note ok' = cache_ok_documents_get [OF Cons.prems(1) g]
  note s = documents_get_stored [OF g]
  show ?case
  proof (cases j)
    case 0
    show ?thesis
    proof (cases "storedDoc st (snap_id snap, toStr u)")
      case None
      with documents_get_miss [OF g None] 0 c g show ?thesis by (simp add: callKey_def)
    next
      case (Some d0)
      with documents_get_hit [OF g Some] 0 c g show ?thesis by (simp add: callKey_def)
    qed
  next
    case (Suc j')
    with Cons.prems have j': "j' < length calls" by simp
    let ?key = "callKey toStr (calls ! j')"
    let ?d = "getDocuments toStr st' calls ! j'"
    have e: "getDocuments toStr st (c # calls) ! j = ?d" "(c # calls) ! j = calls ! j'"
      using Suc c g by simp_all
    from Cons.IH [OF ok' j']
    have "storedDoc st' ?key = Some ?d
          \<or> (storedDoc st' ?key = None \<and> nextVersion st' (snd ?key) \<le> version ?d)" .
    then show ?thesis
    proof
      assume a: "storedDoc st' ?key = Some ?d"
      show ?thesis
      proof (cases "?key = (snap_id snap, toStr u)")
        case False
        with a s [of ?key] e show ?thesis by simp
      next
        case True
        with a s [of ?key] have dd: "?d = d" by simp
        show ?thesis
        proof (cases "storedDoc st (snap_id snap, toStr u)")
          case None
          with documents_get_miss [OF g None] dd True e show ?thesis by simp
        next
          case (Some d0)
          with documents_get_hit [OF g Some] dd True e show ?thesis by simp
        qed
      qed
    next
      assume a: "storedDoc st' ?key = None \<and> nextVersion st' (snd ?key) \<le> version ?d"
      with s [of ?key] have "storedDoc st ?key = None" by (simp split: if_splits)
      moreover from a nextVersion_mono [OF g, of "snd ?key"]
      have "nextVersion st (snd ?key) \<le> version ?d" by simp
      ultimately show ?thesis using e by simp
    qed
  qed
qed

lemma cache_ok_empty: "cache_ok emptyDocuments"
  by (simp add: cache_ok_def storedDoc_def emptyDocuments_def)

lemma storedDoc_empty: "storedDoc emptyDocuments key = None"
  by (simp add: storedDoc_def emptyDocuments_def)

lemma getDocuments_pairs:
  "cache_ok st \<Longrightarrow> i < j \<Longrightarrow> j < length calls
   \<Longrightarrow> (callKey toStr (calls ! i) = callKey toStr (calls ! j)
         \<longrightarrow> getDocuments toStr st calls ! i = getDocuments toStr st calls ! j)
       \<and> (snd (callKey toStr (calls ! i)) = snd (callKey toStr (calls ! j))
          \<and> fst (callKey toStr (calls ! i)) \<noteq> fst (callKey toStr (calls ! j))
         \<longrightarrow> version (getDocuments toStr st calls ! i) \<noteq> version (getDocuments toStr st calls ! j)
             \<and> (storedDoc st (callKey toStr (calls ! j)) = None
                \<and> (\<forall>k<j. callKey toStr (calls ! k) \<noteq> callKey toStr (calls ! j))
                \<longrightarrow> version (getDocuments toStr st calls ! i)
                      < version (getDocuments toStr st calls ! j)))"
proof (induction calls arbitrary: st i j)
  case Nil
  then show ?case by simp
next
  case (Cons c calls)
  obtain u l snap where c: "c = (u, l, snap)" by (cases c)
  obtain d st' where g: "documents_get toStr st u l snap = (d, st')"
    by (cases "documents_get toStr st u l snap")
  note ok' = cache_ok_documents_get [OF Cons.prems(1) g]
  note s = documents_get_stored [OF g]
  from Cons.prems obtain j' where j: "j = Suc j'" and j': "j' < length calls"
    by (cases j) auto
  let ?kj = "callKey toStr (calls ! j')"
  let ?dj = "getDocuments toStr st' calls ! j'"
  have ej: "getDocuments toStr st (c # calls) ! j = ?dj" "(c # calls) ! j = calls ! j'"
    using j c g by simp_all
  show ?case
  proof (cases i)
    case 0
    let ?k0 = "(snap_id snap, toStr u)"
    have e0: "getDocuments toStr st (c # calls) ! i = d" "callKey toStr ((c # calls) ! i) = ?k0"
      using 0 c g by (simp_all add: callKey_def)
    have s0: "storedDoc st' ?k0 = Some d" using s [of ?k0] by simp
    from getDocuments_nth [OF ok' j', of toStr]
    have n: "storedDoc st' ?kj = Some ?dj
          \<or> (storedDoc st' ?kj = None \<and> nextVersion st' (snd ?kj) \<le> version ?dj)" .
    have lt: "version d < nextVersion st' (toStr u)"
      using ok' s0 unfolding cache_ok_def by blast
    have same: "?dj = d" if "?k0 = ?kj"
      using n s0 that by auto
    have diff: "version d \<noteq> version ?dj
                \<and> (storedDoc st ?kj = None \<and> ?k0 \<noteq> ?kj \<longrightarrow> version d < version ?dj)"
      if k: "toStr u = snd ?kj" and f: "snap_id snap \<noteq> fst ?kj"
      using n
    proof
      assume a: "storedDoc st' ?kj = Some ?dj"
      from k have kj: "?kj = (fst ?kj, toStr u)" by (cases ?kj) simp
      from a kj have "storedDoc st' (fst ?kj, toStr u) = Some ?dj" by simp
      with s0 f ok' have "version d \<noteq> version ?dj"
        unfolding cache_ok_def by blast
      moreover have "storedDoc st ?kj \<noteq> None" if "?k0 \<noteq> ?kj"
        using a s [of ?kj] that by (auto split: if_splits)
      ultimately show ?thesis by blast
    next
      assume a: "storedDoc st' ?kj = None \<and> nextVersion st' (snd ?kj) \<le> version ?dj"
      with lt k show ?thesis by simp
    qed
    have first: "?k0 \<noteq> ?kj" if "\<forall>k<j. callKey toStr ((c # calls) ! k) \<noteq> callKey toStr ((c # calls) ! j)"
    proof -
      from that j have "callKey toStr ((c # calls) ! 0) \<noteq> callKey toStr ((c # calls) ! j)"
        by blast
      with ej c show ?thesis by (simp add: callKey_def)
    qed
    show ?thesis
    proof (intro conjI impI)
      assume "callKey toStr ((c # calls) ! i) = callKey toStr ((c # calls) ! j)"
      then have "?k0 = ?kj" using e0(2) ej(2) by simp
      from same [OF this] show "getDocuments toStr st (c # calls) ! i
          = getDocuments toStr st (c # calls) ! j"
        using e0(1) ej(1) by simp
    next
      assume "snd (callKey toStr ((c # calls) ! i)) = snd (callKey toStr ((c # calls) ! j))
          \<and> fst (callKey toStr ((c # calls) ! i)) \<noteq> fst (callKey toStr ((c # calls) ! j))"
      then have k: "toStr u = snd ?kj" and f: "snap_id snap \<noteq> fst ?kj"
        using e0(2) ej(2) by simp_all
      from diff [OF k f] show "version (getDocuments toStr st (c # calls) ! i)
          \<noteq> version (getDocuments toStr st (c # calls) ! j)"
        using e0(1) ej(1) by simp
    next
      assume "snd (callKey toStr ((c # calls) ! i)) = snd (callKey toStr ((c # calls) ! j))
          \<and> fst (callKey toStr ((c # calls) ! i)) \<noteq> fst (callKey toStr ((c # calls) ! j))"
        and b: "storedDoc st (callKey toStr ((c # calls) ! j)) = None
          \<and> (\<forall>k<j. callKey toStr ((c # calls) ! k) \<noteq> callKey toStr ((c # calls) ! j))"
      then have k: "toStr u = snd ?kj" and f: "snap_id snap \<noteq> fst ?kj"
        using e0(2) ej(2) by simp_all
      from b have "storedDoc st ?kj = None" using ej(2) by simp
      moreover from b have "?k0 \<noteq> ?kj" by (intro first) simp
      ultimately have "version d < version ?dj" using diff [OF k f] by blast
      then show "version (getDocuments toStr st (c # calls) ! i)
          < version (getDocuments toStr st (c # calls) ! j)"
        using e0(1) ej(1) by simp
    qed
  next
    case (Suc i')
    with Cons.prems j have ij: "i' < j'" by simp
    have ei: "getDocuments toStr st (c # calls) ! i = getDocuments toStr st' calls ! i'"
      "(c # calls) ! i = calls ! i'"
      using Suc c g by simp_all
    note IH = Cons.IH [OF ok' ij j']
    have fresh: "storedDoc st' ?kj = None \<and> (\<forall>k<j'. callKey toStr (calls ! k) \<noteq> ?kj)"
      if a: "storedDoc st ?kj = None"
        and b: "\<forall>k<j. callKey toStr ((c # calls) ! k) \<noteq> callKey toStr ((c # calls) ! j)"
    proof
      from b j have "callKey toStr ((c # calls) ! 0) \<noteq> callKey toStr ((c # calls) ! j)"
        by blast
      with ej c have "(snap_id snap, toStr u) \<noteq> ?kj" by (simp add: callKey_def)
      with a s [of ?kj] show "storedDoc st' ?kj = None" by simp
      show "\<forall>k<j'. callKey toStr (calls ! k) \<noteq> ?kj"
      proof (intro allI impI)
        fix k assume "k < j'"
        with b j have "callKey toStr ((c # calls) ! Suc k) \<noteq> callKey toStr ((c # calls) ! j)"
          by auto
        with ej show "callKey toStr (calls ! k) \<noteq> ?kj" by simp
      qed
    qed
    show ?thesis
    proof (intro conjI impI)
      assume "callKey toStr ((c # calls) ! i) = callKey toStr ((c # calls) ! j)"
      then have "callKey toStr (calls ! i') = ?kj" using ei(2) ej(2) by simp
      with IH show "getDocuments toStr st (c # calls) ! i
          = getDocuments toStr st (c # calls) ! j"
        using ei(1) ej(1) by simp
    next
      assume "snd (callKey toStr ((c # calls) ! i)) = snd (callKey toStr ((c # calls) ! j))
          \<and> fst (callKey toStr ((c # calls) ! i)) \<noteq> fst (callKey toStr ((c # calls) ! j))"
      then have "snd (callKey toStr (calls ! i')) = snd ?kj
          \<and> fst (callKey toStr (calls ! i')) \<noteq> fst ?kj"
        using ei(2) ej(2) by simp
      with IH show "version (getDocuments toStr st (c # calls) ! i)
          \<noteq> version (getDocuments toStr st (c # calls) ! j)"
        using ei(1) ej(1) by simp
    next
      assume "snd (callKey toStr ((c # calls) ! i)) = snd (callKey toStr ((c # calls) ! j))
          \<and> fst (callKey toStr ((c # calls) ! i)) \<noteq> fst (callKey toStr ((c # calls) ! j))"
        and b: "storedDoc st (callKey toStr ((c # calls) ! j)) = None
          \<and> (\<forall>k<j. callKey toStr ((c # calls) ! k) \<noteq> callKey toStr ((c # calls) ! j))"
      then have a: "snd (callKey toStr (calls ! i')) = snd ?kj
          \<and> fst (callKey toStr (calls ! i')) \<noteq> fst ?kj"
        using ei(2) ej(2) by simp
      from b have "storedDoc st ?kj = None" using ej(2) by simp
      from fresh [OF this] b
      have "storedDoc st' ?kj = None \<and> (\<forall>k<j'. callKey toStr (calls ! k) \<noteq> ?kj)" by blast
      with IH a have "version (getDocuments toStr st' calls ! i') < version ?dj" by blast
      then show "version (getDocuments toStr st (c # calls) ! i)
          < version (getDocuments toStr st (c # calls) ! j)"
        using ei(1) ej(1) by simp
    qed
  qed
qed

text \<open>
  C10. In a sequence of \<open>documents.get\<close> calls on a cache that starts empty, two calls
  with the same snapshot and the same URI return the same document; two calls with the
  same URI and different snapshots return documents of different versions, and the later
  call has the greater version when it is the first call for its snapshot and URI.
\<close>

theorem document_versions:
  assumes "i < j" and "j < length calls"
  shows "(callKey toStr (calls ! i) = callKey toStr (calls ! j)
         \<longrightarrow> getDocuments toStr emptyDocuments calls ! i
              = getDocuments toStr emptyDocuments calls ! j)
       \<and> (snd (callKey toStr (calls ! i)) = snd (callKey toStr (calls ! j))
          \<and> fst (callKey toStr (calls ! i)) \<noteq> fst (callKey toStr (calls ! j))
         \<longrightarrow> version (getDocuments toStr emptyDocuments calls ! i)
               \<noteq> version (getDocuments toStr emptyDocuments calls ! j)
             \<and> ((\<forall>k<j. callKey toStr (calls ! k) \<noteq> callKey toStr (calls ! j))
                \<longrightarrow> version (getDocuments toStr emptyDocuments calls ! i)
                      < version (getDocuments toStr emptyDocuments calls ! j)))"
  using getDocuments_pairs [OF cache_ok_empty assms, of toStr]
  by (simp add: storedDoc_empty)

theorem document_versions_witness:
  "map version (getDocuments exampleToString emptyDocuments exampleCalls) = [0, 1, 0, 0, 2]
   \<and> getDocuments exampleToString emptyDocuments exampleCalls ! 0
       = getDocuments exampleToString emptyDocuments exampleCalls ! 2
   \<and> version (getDocuments exampleToString emptyDocuments exampleCalls ! 0)
       \<noteq> version (getDocuments exampleToString emptyDocuments exampleCalls ! 1)
   \<and> version (getDocuments exampleToString emptyDocuments exampleCalls ! 1)
       < version (getDocuments exampleToString emptyDocuments exampleCalls ! 4)"
proof -
  have v: "map version (getDocuments exampleToString emptyDocuments exampleCalls) = [0, 1, 0, 0, 2]"
    by code_simp
  have l: "(2::nat) < length exampleCalls" "(1::nat) < length exampleCalls"
    "(4::nat) < length exampleCalls"
    by (simp_all add: exampleCalls_def)
  have k02: "callKey exampleToString (exampleCalls ! 0) = callKey exampleToString (exampleCalls ! 2)"
    by code_simp
  have k01: "snd (callKey exampleToString (exampleCalls ! 0)) = snd (callKey exampleToString (exampleCalls ! 1))
      \<and> fst (callKey exampleToString (exampleCalls ! 0)) \<noteq> fst (callKey exampleToString (exampleCalls ! 1))"
    by code_simp
  have k14: "snd (callKey exampleToString (exampleCalls ! 1)) = snd (callKey exampleToString (exampleCalls ! 4))
      \<and> fst (callKey exampleToString (exampleCalls ! 1)) \<noteq> fst (callKey exampleToString (exampleCalls ! 4))"
    by code_simp
  have f4: "\<forall>k<4. callKey exampleToString (exampleCalls ! k) \<noteq> callKey exampleToString (exampleCalls ! 4)"
  proof (intro allI impI)
    fix k :: nat
    assume "k < 4"
    then have "k = 0 \<or> k = 1 \<or> k = 2 \<or> k = 3" by arith
    then show "callKey exampleToString (exampleCalls ! k) \<noteq> callKey exampleToString (exampleCalls ! 4)"
      by (auto simp: exampleCalls_def callKey_def)
  qed
  from document_versions [of 0 2 exampleCalls exampleToString] l k02
  have a: "getDocuments exampleToString emptyDocuments exampleCalls ! 0
       = getDocuments exampleToString emptyDocuments exampleCalls ! 2"
    by simp
  from document_versions [of 0 1 exampleCalls exampleToString] l k01
  have b: "version (getDocuments exampleToString emptyDocuments exampleCalls ! 0)
       \<noteq> version (getDocuments exampleToString emptyDocuments exampleCalls ! 1)"
    by simp
  from document_versions [of 1 4 exampleCalls exampleToString] l k14 f4
  have c: "version (getDocuments exampleToString emptyDocuments exampleCalls ! 1)
       < version (getDocuments exampleToString emptyDocuments exampleCalls ! 4)"
    by simp
  from v a b c show ?thesis by blast
qed

end
